theory Spec2Isabelle
  imports Main
begin

section \<open>Go strings and the library functions the code calls\<close>

text \<open>
  A Go string is a sequence of bytes, so it is modelled as a \<open>string\<close> (a \<open>char list\<close>,
  one \<open>char\<close> per byte); \<open>len(s)\<close> is \<open>length s\<close>.
\<close>

subsection \<open>strings.TrimSpace\<close>

text \<open>
  \<open>strings.TrimSpace\<close> removes every leading and every trailing rune for which
  \<open>unicode.IsSpace\<close> holds. On UTF-8 bytes these runes are the six ASCII characters
  tab, line feed, vertical tab, form feed, carriage return and space, and the encodings of
  U+0085, U+00A0, U+1680, U+2000 to U+200A, U+2028, U+2029, U+202F, U+205F and U+3000.
  A byte that starts no valid encoding decodes to the error rune of width one, which is
  not white space, so trimming stops there.
\<close>

definition spaceRunes :: "string list" where
  "spaceRunes =
    [[CHR 0x09], [CHR 0x0A], [CHR 0x0B], [CHR 0x0C], [CHR 0x0D], [CHR 0x20],
     [CHR 0xC2, CHR 0x85], [CHR 0xC2, CHR 0xA0],
     [CHR 0xE1, CHR 0x9A, CHR 0x80],
     [CHR 0xE2, CHR 0x80, CHR 0x80], [CHR 0xE2, CHR 0x80, CHR 0x81],
     [CHR 0xE2, CHR 0x80, CHR 0x82], [CHR 0xE2, CHR 0x80, CHR 0x83],
     [CHR 0xE2, CHR 0x80, CHR 0x84], [CHR 0xE2, CHR 0x80, CHR 0x85],
     [CHR 0xE2, CHR 0x80, CHR 0x86], [CHR 0xE2, CHR 0x80, CHR 0x87],
     [CHR 0xE2, CHR 0x80, CHR 0x88], [CHR 0xE2, CHR 0x80, CHR 0x89],
     [CHR 0xE2, CHR 0x80, CHR 0x8A],
     [CHR 0xE2, CHR 0x80, CHR 0xA8], [CHR 0xE2, CHR 0x80, CHR 0xA9],
     [CHR 0xE2, CHR 0x80, CHR 0xAF],
     [CHR 0xE2, CHR 0x81, CHR 0x9F],
     [CHR 0xE3, CHR 0x80, CHR 0x80]]"

text \<open>\<open>startsWith e s\<close>: the bytes \<open>e\<close> are the first bytes of \<open>s\<close>.\<close>

definition startsWith :: "string \<Rightarrow> string \<Rightarrow> bool" where
  "startsWith e s = (take (length e) s = e)"

text \<open>
  \<open>trimLeft rs s\<close> drops leading runes as long as the input starts with one of the
  encodings \<open>rs\<close>.
\<close>

fun trimLeft :: "string list \<Rightarrow> string \<Rightarrow> string" where
  "trimLeft rs [] = []"
| "trimLeft rs (c # cs) =
     (case find (\<lambda>e. e \<noteq> [] \<and> startsWith e (c # cs)) rs of
        None \<Rightarrow> c # cs
      | Some e \<Rightarrow> trimLeft rs (drop (length e - 1) cs))"

text \<open>
  The trailing runes are found by decoding backwards; an encoding is a suffix of the input
  exactly when its reversal is a prefix of the reversed input.
\<close>

definition TrimSpace :: "string \<Rightarrow> string" where
  "TrimSpace s = rev (trimLeft (map rev spaceRunes) (rev (trimLeft spaceRunes s)))"

subsection \<open>The regexp package, for the patterns of this program\<close>

text \<open>
  The patterns of the normalizer use literals, character classes with a repetition count,
  optional groups, capturing groups and concatenation. All of them begin with \<open>^\<close> and end
  with \<open>$\<close>, which (no flag being set) match only at the two ends of the text. The classes
  are ASCII: \<open>\d\<close> is \<open>[0-9]\<close> and \<open>\s\<close> is tab, line feed, form feed, carriage return and
  space (no vertical tab).
\<close>

definition digitClass :: "char list" where
  "digitClass = ''0123456789''"

definition spaceClass :: "char list" where
  "spaceClass = [CHR 0x09, CHR 0x0A, CHR 0x0C, CHR 0x0D, CHR 0x20]"

definition upperClass :: "char list" where
  "upperClass = ''ABCDEFGHIJKLMNOPQRSTUVWXYZ''"

datatype re =
    Lit string                        \<comment> \<open>the literal text\<close>
  | Rep "char list" nat "nat option"  \<comment> \<open>a class, at least and at most so many times, greedy\<close>
  | Grp re                            \<comment> \<open>a capturing group \<open>(...)\<close>\<close>
  | Opt re                            \<comment> \<open>\<open>(?:...)?\<close>, greedy\<close>
  | Concat "re list"

text \<open>
  The matcher returns every way of matching a prefix of the input, as the remaining input
  and the captures so far, in the order in which a backtracking engine tries them; this is
  the order of preference of the regexp package (leftmost-first). A group appends its text
  when it closes; the patterns have no nested groups, so the captures come out in the
  order of their numbers.
\<close>

fun rmatch :: "re \<Rightarrow> string \<times> string list \<Rightarrow> (string \<times> string list) list" where
  "rmatch (Lit l) (s, caps) = (if startsWith l s then [(drop (length l) s, caps)] else [])"
| "rmatch (Rep cls lo hi) (s, caps) =
     (let n = length (takeWhile (\<lambda>c. c \<in> set cls) s);
          m = (case hi of None \<Rightarrow> n | Some h \<Rightarrow> min h n)
      in map (\<lambda>k. (drop k s, caps)) (rev [lo..<Suc m]))"
| "rmatch (Grp r) (s, caps) =
     map (\<lambda>(s', caps'). (s', caps' @ [take (length s - length s') s])) (rmatch r (s, caps))"
| "rmatch (Opt r) st = rmatch r st @ [st]"
| "rmatch (Concat []) st = [st]"
| "rmatch (Concat (r # rs)) st = concat (map (rmatch (Concat rs)) (rmatch r st))"

text \<open>
  \<open>FindStringSubmatch\<close> for a pattern anchored at both ends: the first match that consumes
  the whole text, as the list of the text and the captured groups; \<open>None\<close> is Go's nil.
\<close>

definition FindStringSubmatch :: "re \<Rightarrow> string \<Rightarrow> string list option" where
  "FindStringSubmatch r s =
     (case filter (\<lambda>(rest, caps). rest = []) (rmatch r (s, [])) of
        [] \<Rightarrow> None
      | (rest, caps) # _ \<Rightarrow> Some (s # caps))"

definition MatchString :: "re \<Rightarrow> string \<Rightarrow> bool" where
  "MatchString r s = (FindStringSubmatch r s \<noteq> None)"

section \<open>Patent numbers\<close>

datatype PatentNumberType =
    PatentNumberTypeUnknown
  | PatentNumberTypeApplication
  | PatentNumberTypeGrant
  | PatentNumberTypePublication

record PatentNumber =
  Original :: string
  Normalized :: string
  ApplicationNo :: string
  Type :: PatentNumberType
  Country :: string

text \<open>\<open>^(?:US)?[\s]*(\d{2})/(\d{3})[,\s]*(\d{3})$\<close>\<close>

definition applicationWithSlashPattern :: re where
  "applicationWithSlashPattern =
     Concat [Opt (Lit ''US''), Rep spaceClass 0 None,
             Grp (Rep digitClass 2 (Some 2)), Lit ''/'',
             Grp (Rep digitClass 3 (Some 3)), Rep (CHR '','' # spaceClass) 0 None,
             Grp (Rep digitClass 3 (Some 3))]"

text \<open>\<open>^(?:US)?[\s]*(\d{1,2})[,\s]*(\d{3})[,\s]*(\d{3})[\s]+[A-Z]\d$\<close>\<close>

definition grantWithKindPattern :: re where
  "grantWithKindPattern =
     Concat [Opt (Lit ''US''), Rep spaceClass 0 None,
             Grp (Rep digitClass 1 (Some 2)), Rep (CHR '','' # spaceClass) 0 None,
             Grp (Rep digitClass 3 (Some 3)), Rep (CHR '','' # spaceClass) 0 None,
             Grp (Rep digitClass 3 (Some 3)), Rep spaceClass 1 None,
             Rep upperClass 1 (Some 1), Rep digitClass 1 (Some 1)]"

text \<open>\<open>^(?:US)?[\s]*(\d{1,2}),(\d{3}),(\d{3})$\<close>\<close>

definition grantWithCommaPattern :: re where
  "grantWithCommaPattern =
     Concat [Opt (Lit ''US''), Rep spaceClass 0 None,
             Grp (Rep digitClass 1 (Some 2)), Lit '','',
             Grp (Rep digitClass 3 (Some 3)), Lit '','',
             Grp (Rep digitClass 3 (Some 3))]"

text \<open>
  \<open>^(?:US)?[\s]*(\d{4})[/,\s]*(\d{7})(?:\s*[A-Z]\d)?$\<close>; its last part, the optional kind
  code \<open>(?:\s*[A-Z]\d)?\<close>, is named for the proofs.
\<close>

definition kindSuffix :: re where
  "kindSuffix = Opt (Concat [Rep spaceClass 0 None, Rep upperClass 1 (Some 1),
                             Rep digitClass 1 (Some 1)])"

definition publicationPattern :: re where
  "publicationPattern =
     Concat [Opt (Lit ''US''), Rep spaceClass 0 None,
             Grp (Rep digitClass 4 (Some 4)), Rep (CHR ''/'' # CHR '','' # spaceClass) 0 None,
             Grp (Rep digitClass 7 (Some 7)), kindSuffix]"

text \<open>\<open>^\d+$\<close>\<close>

definition digitsOnlyPattern :: re where
  "digitsOnlyPattern = Rep digitClass 1 None"

text \<open>
  The errors of \<open>NormalizePatentNumber\<close>, one constructor for each \<open>fmt.Errorf\<close>:
  "patent number cannot be empty",
  "unrecognized patent number format (invalid length %d): %s" and
  "unrecognized patent number format: %s".
\<close>

datatype FormatError =
    EmptyNumber
  | InvalidLength nat string
  | UnrecognizedFormat string

definition NormalizePatentNumber :: "string \<Rightarrow> FormatError + PatentNumber" where
  "NormalizePatentNumber input =
    (if input = [] then Inl EmptyNumber
     else
      let cleaned = TrimSpace input;
          result = \<lparr>Original = input, Normalized = [], ApplicationNo = [],
                    Type = PatentNumberTypeUnknown, Country = ''US''\<rparr>
      in case FindStringSubmatch grantWithKindPattern cleaned of
        Some matches \<Rightarrow>
          (let series = matches ! 1; number = matches ! 2 @ matches ! 3
           in Inr (result\<lparr>Normalized := series @ number, Type := PatentNumberTypeGrant,
                           ApplicationNo := []\<rparr>))
      | None \<Rightarrow>
      (case FindStringSubmatch applicationWithSlashPattern cleaned of
        Some matches \<Rightarrow>
          (let series = matches ! 1; number = matches ! 2 @ matches ! 3
           in Inr (result\<lparr>Normalized := series @ number, ApplicationNo := series @ number,
                           Type := PatentNumberTypeApplication\<rparr>))
      | None \<Rightarrow>
      (case FindStringSubmatch grantWithCommaPattern cleaned of
        Some matches \<Rightarrow>
          (let series = matches ! 1; number = matches ! 2 @ matches ! 3
           in Inr (result\<lparr>Normalized := series @ number, Type := PatentNumberTypeGrant,
                           ApplicationNo := []\<rparr>))
      | None \<Rightarrow>
      (case FindStringSubmatch publicationPattern cleaned of
        Some matches \<Rightarrow>
          (let year = matches ! 1; number = matches ! 2
           in Inr (result\<lparr>Normalized := year @ number, Type := PatentNumberTypePublication,
                           ApplicationNo := []\<rparr>))
      | None \<Rightarrow>
      (if MatchString digitsOnlyPattern cleaned then
         (let result = result\<lparr>Normalized := cleaned\<rparr>;
              len = length cleaned
          in if len = 7 then Inr (result\<lparr>Type := PatentNumberTypeGrant\<rparr>)
             else if len = 8 \<or> len = 9 then
               Inr (result\<lparr>Type := PatentNumberTypeApplication, ApplicationNo := cleaned\<rparr>)
             else if len = 11 then Inr (result\<lparr>Type := PatentNumberTypePublication\<rparr>)
             else Inl (InvalidLength len input))
       else Inl (UnrecognizedFormat input))))))"

section \<open>The document model of xml.go\<close>

text \<open>
  The structs of xml.go, as records with the fields of the source; a Go pointer that may be
  nil is an \<open>option\<close>, a slice is a list. Field names that several structs share are
  written with the record's name (\<open>Heading.Text\<close>).
\<close>

record Name =
  Space :: string
  Local :: string

record Sub =
  Text :: string

record Sup =
  Text :: string

record Italic =
  Text :: string

record Bold =
  Text :: string

record Text =
  ID :: string
  Lang :: string
  Text :: string

record DocumentID =
  Country :: string
  DocNumber :: string
  Kind :: string
  Date :: string

record Bibliography =
  PublicationReference :: "DocumentID option"
  ApplicationReference :: "DocumentID option"
  InventionTitle :: "Text list"

record Paragraph =
  ID :: string
  Num :: string
  Text :: string
  Sub :: "Sub list"
  Sup :: "Sup list"
  I :: "Italic list"
  B :: "Bold list"

record Abstract =
  ID :: string
  Lang :: string
  Paragraphs :: "Paragraph list"

record Heading =
  ID :: string
  Level :: string
  Text :: string

record Description =
  ID :: string
  Lang :: string
  Headings :: "Heading list"
  Paragraphs :: "Paragraph list"

record Image =
  ID :: string
  He :: string
  Wi :: string
  File :: string
  Alt :: string
  ImgContent :: string
  ImgFormat :: string

record Figure =
  ID :: string
  Img :: Image

record DrawingsInfo =
  ID :: string
  Figures :: "Figure list"

text \<open>
  \<open>ClaimText\<close> is recursive: a claim text holds its own character data, the nested
  claim texts, and the formatting spans.
\<close>

datatype ClaimText =
  ClaimText (ID: string) (Text: string) (NestedClaims: "ClaimText list")
            (Sub: "Sub list") (Sup: "Sup list") (I: "Italic list") (B: "Bold list")

record Claim =
  ID :: string
  Num :: string
  ClaimText :: "ClaimText list"

record Claims =
  ID :: string
  Lang :: string
  ClaimList :: "Claim list"

record PatentGrant =
  XMLName :: Name
  Lang :: string
  DTDVersion :: string
  File :: string
  Status :: string
  ID :: string
  Country :: string
  DateProduced :: string
  DatePubl :: string
  Bibliography :: "Bibliography option"
  Abstract :: "Abstract option"
  DrawingsInfo :: "DrawingsInfo option"
  Description :: "Description option"
  Claims :: "Claims option"

record PatentApplication =
  XMLName :: Name
  Lang :: string
  DTDVersion :: string
  File :: string
  Status :: string
  ID :: string
  Country :: string
  DateProduced :: string
  DatePubl :: string
  Bibliography :: "Bibliography option"
  Abstract :: "Abstract option"
  DrawingsInfo :: "DrawingsInfo option"
  Description :: "Description option"
  Claims :: "Claims option"

record XMLDocument =
  Grant :: "PatentGrant option"
  Application :: "PatentApplication option"

datatype DocumentType =
    DocumentTypeUnknown
  | DocumentTypeGrant
  | DocumentTypeApplication

section \<open>Text extraction\<close>

text \<open>
  A \<open>strings.Builder\<close> is the string written so far; \<open>WriteString\<close> appends and \<open>Len\<close> is
  the length. The line feed of the Go literal \<open>"\n"\<close> is the byte 0x0A, written
  \<open>\<newline>\<close> in a string.
\<close>

definition extractParagraphText :: "Paragraph option \<Rightarrow> string" where
  "extractParagraphText p =
     (case p of None \<Rightarrow> [] | Some p \<Rightarrow> TrimSpace (Paragraph.Text p))"

text \<open>
  The two loops of \<open>ExtractDescriptionText\<close>, on the state \<open>(builder, lastWasHeading)\<close>.
  Both branches of the test on \<open>lastWasHeading\<close> write the same separator, as in the
  source.
\<close>

fun headingsLoop :: "Heading list \<Rightarrow> string \<times> bool \<Rightarrow> string \<times> bool" where
  "headingsLoop [] st = st"
| "headingsLoop (h # hs) (builder, lastWasHeading) =
     (let builder = (if length builder > 0 then builder @ ''\<newline>\<newline>'' else builder);
          builder = builder @ TrimSpace (Heading.Text h)
      in headingsLoop hs (builder, True))"

fun paragraphsLoop :: "Paragraph list \<Rightarrow> string \<times> bool \<Rightarrow> string \<times> bool" where
  "paragraphsLoop [] st = st"
| "paragraphsLoop (p # ps) (builder, lastWasHeading) =
     (let builder =
            (if length builder > 0 then
               (if lastWasHeading then builder @ ''\<newline>\<newline>''
                else builder @ ''\<newline>\<newline>'')
             else builder);
          builder = builder @ extractParagraphText (Some p)
      in paragraphsLoop ps (builder, False))"

definition ExtractDescriptionText :: "Description option \<Rightarrow> string" where
  "ExtractDescriptionText d =
     (case d of
        None \<Rightarrow> []
      | Some d \<Rightarrow>
          (let st = headingsLoop (Headings d) ([], False);
               st = paragraphsLoop (Description.Paragraphs d) st
           in TrimSpace (fst st)))"

text \<open>
  \<open>extractClaimTextRecursive\<close> and its loop over the claim texts, which carries the builder.
  The depth is passed on and never read, as in the source.
\<close>

fun extractClaimTextRecursive :: "ClaimText list \<Rightarrow> int \<Rightarrow> string"
  and claimTextLoop :: "ClaimText list \<Rightarrow> int \<Rightarrow> string \<Rightarrow> string" where
  "extractClaimTextRecursive claimTexts depth = TrimSpace (claimTextLoop claimTexts depth [])"
| "claimTextLoop [] depth builder = builder"
| "claimTextLoop (ClaimText.ClaimText ident txt nestedClaims subs sups its bs # cts) depth builder =
     (let text = TrimSpace txt;
          builder =
            (if text \<noteq> [] then
               (if length builder > 0 then builder @ '' '' else builder) @ text
             else builder);
          builder =
            (if length nestedClaims > 0 then
               (let nested = extractClaimTextRecursive nestedClaims (depth + 1)
                in if nested \<noteq> [] then
                     (if length builder > 0 then builder @ '' '' else builder) @ nested
                   else builder)
             else builder)
      in claimTextLoop cts depth builder)"

definition ExtractClaimText :: "Claim option \<Rightarrow> string" where
  "ExtractClaimText c =
     (case c of None \<Rightarrow> [] | Some c \<Rightarrow> extractClaimTextRecursive (Claim.ClaimText c) 0)"

subsection \<open>fmt.Sscanf with the format "%d", and the verb %d of fmt.Fprintf\<close>

text \<open>
  \<open>fmt.Sscanf(s, "%d", &n)\<close> skips leading white space, where a line feed is an error;
  accepts one sign; reads the longest run of the decimal digits 0 to 9, which must not be
  empty; and hands the token to \<open>strconv.ParseInt\<close> in base 10 and 64 bits, which rejects a
  value outside the range of \<open>int64\<close>. What follows the token is ignored, so the scan
  succeeds on any text that begins with a number.
  An \<open>int\<close> has 64 bits here, and Go's \<open>int\<close> is a HOL \<open>int\<close>: the claim numbers come out
  of this scan or are positions in a list, so they stay in range.
\<close>

datatype ScanError =
    UnexpectedNewline   \<comment> \<open>"unexpected newline"\<close>
  | EndOfInput          \<comment> \<open>the input ends before a number is read: an end-of-file error\<close>
  | ExpectedInteger     \<comment> \<open>"expected integer"\<close>
  | NumError            \<comment> \<open>the \<open>*strconv.NumError\<close> of \<open>ParseInt\<close>: value out of range\<close>

fun SkipSpace :: "string \<Rightarrow> ScanError + string" where
  "SkipSpace [] = Inr []"
| "SkipSpace (c # cs) =
     (if c = CHR 0x0A then Inl UnexpectedNewline
      else case find (\<lambda>e. e \<noteq> [] \<and> startsWith e (c # cs)) spaceRunes of
             None \<Rightarrow> Inr (c # cs)
           | Some e \<Rightarrow> SkipSpace (drop (length e - 1) cs))"

definition digitValue :: "char \<Rightarrow> int" where
  "digitValue c = int (of_char c) - 48"

definition decimalValue :: "string \<Rightarrow> int" where
  "decimalValue tok = foldl (\<lambda>n c. 10 * n + digitValue c) 0 tok"

definition Sscanf_d :: "string \<Rightarrow> ScanError + int" where
  "Sscanf_d str =
     (case SkipSpace str of
        Inl err \<Rightarrow> Inl err
      | Inr s \<Rightarrow>
          (case s of
             [] \<Rightarrow> Inl EndOfInput
           | c # cs \<Rightarrow>
               (let neg = (c = CHR ''-'');
                    s = (if c = CHR ''+'' \<or> c = CHR ''-'' then cs else c # cs)
                in if s = [] then Inl EndOfInput
                   else
                     (let tok = takeWhile (\<lambda>c. c \<in> set digitClass) s
                      in if tok = [] then Inl ExpectedInteger
                         else
                           (let n = (if neg then - decimalValue tok else decimalValue tok)
                            in if n < - (2 ^ 63) \<or> 2 ^ 63 - 1 < n then Inl NumError
                               else Inr n)))))"

text \<open>The verb \<open>%d\<close> for an \<open>int\<close>: decimal digits, with a minus sign when negative.\<close>

fun formatNat :: "nat \<Rightarrow> string" where
  "formatNat n =
     (if n < 10 then [digitClass ! n] else formatNat (n div 10) @ [digitClass ! (n mod 10)])"

definition formatInt :: "int \<Rightarrow> string" where
  "formatInt n = (if n < 0 then CHR ''-'' # formatNat (nat (- n)) else formatNat (nat n))"

text \<open>
  The loop of \<open>ExtractAllClaimsTextFormatted\<close>, on the index \<open>i\<close> and the builder. The
  claim number is the position \<open>i + 1\<close>; when the attribute \<open>num\<close> is not empty it is
  scanned, and the position is used again if the scan fails.
\<close>

fun formattedLoop :: "Claim list \<Rightarrow> int \<Rightarrow> string \<Rightarrow> string" where
  "formattedLoop [] i builder = builder"
| "formattedLoop (claim # rest) i builder =
     (let claimNum = i + 1;
          claimNum =
            (if Claim.Num claim \<noteq> [] then
               (case Sscanf_d (Claim.Num claim) of Inl err \<Rightarrow> i + 1 | Inr n \<Rightarrow> n)
             else claimNum);
          builder = (if i > 0 then builder @ ''\<newline>\<newline>'' else builder);
          builder = builder @ ''CLAIM '' @ formatInt claimNum @ '':\<newline>''
                      @ ExtractClaimText (Some claim)
      in formattedLoop rest (i + 1) builder)"

definition ExtractAllClaimsTextFormatted :: "Claims option \<Rightarrow> string" where
  "ExtractAllClaimsTextFormatted c =
     (case c of
        None \<Rightarrow> []
      | Some c \<Rightarrow> if length (ClaimList c) = 0 then [] else formattedLoop (ClaimList c) 0 [])"

subsection \<open>The extraction as the specification words it\<close>

text \<open>\<open>joinWith sep xs\<close>: the strings \<open>xs\<close> in order, with \<open>sep\<close> between neighbours.\<close>

fun joinWith :: "string \<Rightarrow> string list \<Rightarrow> string" where
  "joinWith sep [] = []"
| "joinWith sep [x] = x"
| "joinWith sep (x # y # ys) = x @ sep @ joinWith sep (y # ys)"

text \<open>
  The trimmed texts of a claim text and of everything nested in it, depth first and left
  to right: the node's own text, then the texts of each nested node in turn.
\<close>

fun claimFragments :: "ClaimText \<Rightarrow> string list" where
  "claimFragments (ClaimText.ClaimText ident txt nestedClaims subs sups its bs) =
     TrimSpace txt # concat (map claimFragments nestedClaims)"

definition claim_text :: "Claim \<Rightarrow> string" where
  "claim_text c =
     joinWith '' '' (filter (\<lambda>f. f \<noteq> []) (concat (map claimFragments (Claim.ClaimText c))))"

text \<open>\<open>dropSpans\<close> removes every formatting span from a claim text, at every depth.\<close>

fun dropSpans :: "ClaimText \<Rightarrow> ClaimText" where
  "dropSpans (ClaimText.ClaimText ident txt nestedClaims subs sups its bs) =
     ClaimText.ClaimText ident txt (map dropSpans nestedClaims) [] [] [] []"

text \<open>
  "The attribute parses as an integer", read on its own: the whole attribute is an
  optional sign followed by one or more decimal digits, and its value fits an \<open>int\<close>.
\<close>

definition integerLiteral :: "string \<Rightarrow> int option" where
  "integerLiteral s =
     (case s of
        [] \<Rightarrow> None
      | c # cs \<Rightarrow>
          (let ds = (if c = CHR ''+'' \<or> c = CHR ''-'' then cs else c # cs);
               n = (if c = CHR ''-'' then - decimalValue ds else decimalValue ds)
           in if ds \<noteq> [] \<and> list_all (\<lambda>d. d \<in> set digitClass) ds \<and>
                 - (2 ^ 63) \<le> n \<and> n \<le> 2 ^ 63 - 1
              then Some n else None))"

text \<open>
  The formatted claims as the specification words them: the number of a claim is its
  attribute when that parses as an integer, and its position \<open>k\<close> (counted from 1)
  otherwise.
\<close>

definition declaredNumber :: "nat \<Rightarrow> Claim \<Rightarrow> int" where
  "declaredNumber k claim =
     (case integerLiteral (Claim.Num claim) of None \<Rightarrow> int k | Some n \<Rightarrow> n)"

definition all_claims_text_formatted :: "Claim list \<Rightarrow> string" where
  "all_claims_text_formatted cs =
     joinWith ''\<newline>\<newline>''
       (map (\<lambda>(k, c). ''CLAIM '' @ formatInt (declaredNumber (Suc k) c) @ '':\<newline>''
                         @ claim_text c)
            (enumerate 0 cs))"

text \<open>
  The formatted claims as the code numbers them: the number of a claim is what the scan
  of its attribute returns, and its position \<open>k\<close> (counted from 1) when the scan fails.
\<close>

definition scannedNumber :: "nat \<Rightarrow> Claim \<Rightarrow> int" where
  "scannedNumber k claim =
     (case Sscanf_d (Claim.Num claim) of Inl err \<Rightarrow> int k | Inr n \<Rightarrow> n)"

definition scannedBlock :: "nat \<Rightarrow> Claim \<Rightarrow> string" where
  "scannedBlock k claim =
     ''CLAIM '' @ formatInt (scannedNumber k claim) @ '':\<newline>'' @ claim_text claim"

definition scannedBlocks :: "Claim list \<Rightarrow> string list" where
  "scannedBlocks cs = map (\<lambda>(k, c). scannedBlock (Suc k) c) (enumerate 0 cs)"

text \<open>
  The description as the specification words it: the block of the trimmed headings and the
  block of the trimmed paragraphs, each joined by blank lines, with a blank line between
  the two blocks when both are present.
\<close>

definition headingBlock :: "Description \<Rightarrow> string list" where
  "headingBlock d = map (\<lambda>h. TrimSpace (Heading.Text h)) (Headings d)"

definition paragraphBlock :: "Description \<Rightarrow> string list" where
  "paragraphBlock d = map (\<lambda>p. TrimSpace (Paragraph.Text p)) (Description.Paragraphs d)"

definition description_text :: "Description \<Rightarrow> string" where
  "description_text d =
     (if headingBlock d = [] then joinWith ''\<newline>\<newline>'' (paragraphBlock d)
      else if paragraphBlock d = [] then joinWith ''\<newline>\<newline>'' (headingBlock d)
      else joinWith ''\<newline>\<newline>'' (headingBlock d) @ ''\<newline>\<newline>''
             @ joinWith ''\<newline>\<newline>'' (paragraphBlock d))"

section \<open>Resolving a patent number through the search\<close>

text \<open>
  Modelled from the spec: the types \<open>PatentDataResponse\<close> and \<open>PatentFileWrapper\<close> of the
  generated package, which is not part of the sources. The search returns records that may
  carry an application number; only the two fields the resolver reads are kept, both
  pointers in the source.
\<close>

record PatentFileWrapper =
  ApplicationNumberText :: "string option"

record PatentDataResponse =
  PatentFileWrapperDataBag :: "PatentFileWrapper list option"

text \<open>
  \<open>SearchPatents\<close> is the search capability: it talks to the network, so it is a parameter
  of the resolver. It takes the query, the offset and the limit, and the state of the world
  \<open>'w\<close>; it returns the new state and either an error \<open>'e\<close> or the pointer to the response,
  which may be nil. The context argument is part of the state.
\<close>

type_synonym ('e, 'w) search =
  "string \<Rightarrow> int \<Rightarrow> int \<Rightarrow> 'w \<Rightarrow> ('e + PatentDataResponse option) \<times> 'w"

text \<open>
  The errors of the resolver, one constructor for each \<open>fmt.Errorf\<close>:
  "invalid patent number: %w",
  "failed to search for grant number %s: %w",
  "no application found for grant number %s",
  "application number not found in response for grant number %s",
  the same three for a publication number, and "unknown patent number type".
  \<open>NilDereference\<close> is the panic of reading a field through a nil response.
\<close>

datatype 'e ResolveError =
    InvalidPatentNumber FormatError
  | GrantSearchFailed string 'e
  | GrantNotFound string
  | GrantApplicationNumberMissing string
  | PublicationSearchFailed string 'e
  | PublicationNotFound string
  | PublicationApplicationNumberMissing string
  | UnknownPatentNumberType
  | NilDereference

definition resolveGrantToApplicationNumber ::
  "('e, 'w) search \<Rightarrow> string \<Rightarrow> 'w \<Rightarrow> ('e ResolveError + string) \<times> 'w" where
  "resolveGrantToApplicationNumber SearchPatents grantNumber w =
     (let query = ''applicationMetaData.patentNumber:'' @ grantNumber;
          (res, w') = SearchPatents query 0 1 w
      in (case res of
            Inl err \<Rightarrow> Inl (GrantSearchFailed grantNumber err)
          | Inr None \<Rightarrow> Inl NilDereference
          | Inr (Some result) \<Rightarrow>
              (case PatentFileWrapperDataBag result of
                 None \<Rightarrow> Inl (GrantNotFound grantNumber)
               | Some [] \<Rightarrow> Inl (GrantNotFound grantNumber)
               | Some (patent # _) \<Rightarrow>
                   (case ApplicationNumberText patent of
                      None \<Rightarrow> Inl (GrantApplicationNumberMissing grantNumber)
                    | Some applicationNumber \<Rightarrow> Inr applicationNumber)),
          w'))"

definition resolvePublicationToApplicationNumber ::
  "('e, 'w) search \<Rightarrow> string \<Rightarrow> 'w \<Rightarrow> ('e ResolveError + string) \<times> 'w" where
  "resolvePublicationToApplicationNumber SearchPatents publicationNumber w =
     (let formattedPub =
            (if length publicationNumber = 11 \<and> \<not> startsWith ''US'' publicationNumber
             then ''US'' @ publicationNumber @ ''A1''
             else publicationNumber);
          query = ''applicationMetaData.earliestPublicationNumber:'' @ formattedPub;
          (res, w') = SearchPatents query 0 1 w
      in (case res of
            Inl err \<Rightarrow> Inl (PublicationSearchFailed publicationNumber err)
          | Inr None \<Rightarrow> Inl NilDereference
          | Inr (Some result) \<Rightarrow>
              (case PatentFileWrapperDataBag result of
                 None \<Rightarrow> Inl (PublicationNotFound publicationNumber)
               | Some [] \<Rightarrow> Inl (PublicationNotFound publicationNumber)
               | Some (patent # _) \<Rightarrow>
                   (case ApplicationNumberText patent of
                      None \<Rightarrow> Inl (PublicationApplicationNumberMissing publicationNumber)
                    | Some applicationNumber \<Rightarrow> Inr applicationNumber)),
          w'))"

definition ToApplicationNumber :: "PatentNumber \<Rightarrow> string" where
  "ToApplicationNumber pn =
     (if ApplicationNo pn \<noteq> [] then ApplicationNo pn else Normalized pn)"

definition ResolvePatentNumber ::
  "('e, 'w) search \<Rightarrow> string \<Rightarrow> 'w \<Rightarrow> ('e ResolveError + string) \<times> 'w" where
  "ResolvePatentNumber SearchPatents patentNumber w =
     (case NormalizePatentNumber patentNumber of
        Inl err \<Rightarrow> (Inl (InvalidPatentNumber err), w)
      | Inr pn \<Rightarrow>
          (case Type pn of
             PatentNumberTypeGrant \<Rightarrow>
               resolveGrantToApplicationNumber SearchPatents (Normalized pn) w
           | PatentNumberTypePublication \<Rightarrow>
               resolvePublicationToApplicationNumber SearchPatents (Normalized pn) w
           | PatentNumberTypeApplication \<Rightarrow> (Inr (ToApplicationNumber pn), w)
           | PatentNumberTypeUnknown \<Rightarrow> (Inl UnknownPatentNumberType, w)))"

text \<open>
  What is read off the first record of a response, in the words of the specification:
  no record is the not-found error, a record without the application number is the
  malformed-response error, otherwise the application number.
\<close>

definition firstApplicationNumber ::
  "'e ResolveError \<Rightarrow> 'e ResolveError \<Rightarrow> PatentDataResponse \<Rightarrow> 'e ResolveError + string" where
  "firstApplicationNumber notFound malformed result =
     (case PatentFileWrapperDataBag result of
        None \<Rightarrow> Inl notFound
      | Some [] \<Rightarrow> Inl notFound
      | Some (patent # _) \<Rightarrow>
          (case ApplicationNumberText patent of
             None \<Rightarrow> Inl malformed
           | Some applicationNumber \<Rightarrow> Inr applicationNumber))"

text \<open>
  A search for the examples: the state of the world is the list of the calls made so far;
  every call is recorded and answered with the same response.
\<close>

definition recordingSearch :: "PatentDataResponse \<Rightarrow> (unit, (string \<times> int \<times> int) list) search" where
  "recordingSearch response query offset limit calls =
     (Inr (Some response), calls @ [(query, offset, limit)])"

section \<open>Parsing a document\<close>

text \<open>
  The package encoding/xml is not part of the sources. The errors of \<open>xml.Unmarshal\<close> are a
  \<open>*xml.SyntaxError\<close> of the decoder, with its message; an \<open>xml.UnmarshalError\<close>, which is
  a string; and \<open>io.EOF\<close>, when the input ends before any element starts.
\<close>

datatype xml_error =
    SyntaxError string
  | UnmarshalError string
  | EOF

text \<open>
  The errors of \<open>ParseXMLWithType\<close>, one constructor for each \<open>fmt.Errorf\<close>:
  "failed to parse as patent grant: %w" and "failed to parse as patent application: %w"
  (\<open>FailedToParse\<close>, with the name of the kind and the error of \<open>xml.Unmarshal\<close>);
  "expected us-patent-grant root element, got %s" and its twin for the application
  (\<open>ExpectedRootElement\<close>, with the expected and the actual name);
  "unrecognized XML document type (expected us-patent-grant or us-patent-application)".
  The last return of the source, "invalid document type", needs an expected type outside
  the three constants, which the datatype \<open>DocumentType\<close> does not have.
\<close>

datatype ParseError =
    FailedToParse string xml_error
  | ExpectedRootElement string string
  | UnrecognizedDocumentType

text \<open>
  \<open>ParseXMLWithType\<close>, with the two calls \<open>xml.Unmarshal(data, &grant)\<close> and
  \<open>xml.Unmarshal(data, &app)\<close> as parameters; \<open>'d\<close> is the type of the input.
\<close>

definition ParseXMLWithType ::
  "('d \<Rightarrow> xml_error + PatentGrant) \<Rightarrow> ('d \<Rightarrow> xml_error + PatentApplication) \<Rightarrow>
   'd \<Rightarrow> DocumentType \<Rightarrow> ParseError + XMLDocument" where
  "ParseXMLWithType unmarshalGrant unmarshalApplication data expectedType =
     (let doc = \<lparr>Grant = None, Application = None\<rparr>
      in case expectedType of
        DocumentTypeGrant \<Rightarrow>
          (case unmarshalGrant data of
             Inl err \<Rightarrow> Inl (FailedToParse ''patent grant'' err)
           | Inr grant \<Rightarrow>
               if Local (PatentGrant.XMLName grant) \<noteq> ''us-patent-grant'' then
                 Inl (ExpectedRootElement ''us-patent-grant'' (Local (PatentGrant.XMLName grant)))
               else Inr (doc\<lparr>Grant := Some grant\<rparr>))
      | DocumentTypeApplication \<Rightarrow>
          (case unmarshalApplication data of
             Inl err \<Rightarrow> Inl (FailedToParse ''patent application'' err)
           | Inr app \<Rightarrow>
               if Local (PatentApplication.XMLName app) \<noteq> ''us-patent-application'' then
                 Inl (ExpectedRootElement ''us-patent-application''
                        (Local (PatentApplication.XMLName app)))
               else Inr (doc\<lparr>Application := Some app\<rparr>))
      | DocumentTypeUnknown \<Rightarrow>
          (case unmarshalGrant data of
             Inr grant \<Rightarrow>
               if Local (PatentGrant.XMLName grant) = ''us-patent-grant'' then
                 Inr (doc\<lparr>Grant := Some grant\<rparr>)
               else
                 (case unmarshalApplication data of
                    Inr app \<Rightarrow>
                      if Local (PatentApplication.XMLName app) = ''us-patent-application'' then
                        Inr (doc\<lparr>Application := Some app\<rparr>)
                      else Inl UnrecognizedDocumentType
                  | Inl err \<Rightarrow> Inl UnrecognizedDocumentType)
           | Inl err \<Rightarrow>
               (case unmarshalApplication data of
                  Inr app \<Rightarrow>
                    if Local (PatentApplication.XMLName app) = ''us-patent-application'' then
                      Inr (doc\<lparr>Application := Some app\<rparr>)
                    else Inl UnrecognizedDocumentType
                | Inl err \<Rightarrow> Inl UnrecognizedDocumentType)))"

text \<open>
  \<open>xml.Unmarshal\<close> into a struct whose field \<open>XMLName\<close> carries a tag, from the documentation
  of encoding/xml: "If the XMLName field has an associated tag of the form "name" or
  "namespace-URL name", the XML element must have the given name (and, optionally, name
  space) or else Unmarshal returns an error"; the error is the \<open>UnmarshalError\<close>
  "expected element type <name> but have <actual>". The name is compared as soon as the
  start tag of the root element is read, before anything inside the element. Otherwise the
  struct is filled from the element and \<open>XMLName\<close> is set to the element's name. The decoder
  returns at the end tag of the root element: the bytes after it are not read.

  The input is represented by what the decoder reads from the bytes, in this order:
  nothing but text, comments and the like up to the end of the input (\<open>NoElement\<close>); a
  syntax error before the start tag of the root element is complete (\<open>Malformed\<close>, with the
  message); or the root element, with its name, its content \<open>'c\<close>, and the bytes that follow
  its end tag (\<open>Root\<close>). How the content fills the other fields of the struct is the
  parameter \<open>fill\<close>, which fails when the decoder meets an error inside the element, a
  syntax error among them; \<open>setName\<close> stores the name in \<open>XMLName\<close>.
\<close>

datatype 'c xml_data =
    NoElement
  | Malformed string
  | Root Name 'c string

definition elementTypeMessage :: "string \<Rightarrow> string \<Rightarrow> string" where
  "elementTypeMessage expected actual =
     ''expected element type <'' @ expected @ ''> but have <'' @ actual @ ''>''"

definition Unmarshal ::
  "string \<Rightarrow> (Name \<Rightarrow> 'v \<Rightarrow> 'v) \<Rightarrow> ('c \<Rightarrow> xml_error + 'v) \<Rightarrow> 'c xml_data \<Rightarrow>
   xml_error + 'v" where
  "Unmarshal tag setName fill data =
     (case data of
        NoElement \<Rightarrow> Inl EOF
      | Malformed msg \<Rightarrow> Inl (SyntaxError msg)
      | Root name content rest \<Rightarrow>
          if tag \<noteq> [] \<and> tag \<noteq> Local name then
            Inl (UnmarshalError (elementTypeMessage tag (Local name)))
          else
            (case fill content of
               Inl err \<Rightarrow> Inl err
             | Inr v \<Rightarrow> Inr (setName name v)))"

text \<open>The two calls of \<open>ParseXMLWithType\<close>, with the tags of the two structs.\<close>

definition unmarshalGrant ::
  "('c \<Rightarrow> xml_error + PatentGrant) \<Rightarrow> 'c xml_data \<Rightarrow> xml_error + PatentGrant" where
  "unmarshalGrant fill =
     Unmarshal ''us-patent-grant'' (\<lambda>n g. g\<lparr>PatentGrant.XMLName := n\<rparr>) fill"

definition unmarshalApplication ::
  "('c \<Rightarrow> xml_error + PatentApplication) \<Rightarrow> 'c xml_data \<Rightarrow>
   xml_error + PatentApplication" where
  "unmarshalApplication fill =
     Unmarshal ''us-patent-application'' (\<lambda>n a. a\<lparr>PatentApplication.XMLName := n\<rparr>) fill"



text \<open>
  \<open>parse\<close> is \<open>ParseXMLWithType\<close> with these two calls; \<open>ParseGrantXML\<close> and
  \<open>ParseApplicationXML\<close> fix the expected type.
\<close>

definition parse ::
  "('c \<Rightarrow> xml_error + PatentGrant) \<Rightarrow> ('c \<Rightarrow> xml_error + PatentApplication) \<Rightarrow>
   'c xml_data \<Rightarrow> DocumentType \<Rightarrow> ParseError + XMLDocument" where
  "parse fillGrant fillApplication data expectedType =
     ParseXMLWithType (unmarshalGrant fillGrant) (unmarshalApplication fillApplication)
       data expectedType"

definition ParseGrantXML ::
  "('c \<Rightarrow> xml_error + PatentGrant) \<Rightarrow> ('c \<Rightarrow> xml_error + PatentApplication) \<Rightarrow>
   'c xml_data \<Rightarrow> ParseError + XMLDocument" where
  "ParseGrantXML fillGrant fillApplication data =
     parse fillGrant fillApplication data DocumentTypeGrant"

definition ParseApplicationXML ::
  "('c \<Rightarrow> xml_error + PatentGrant) \<Rightarrow> ('c \<Rightarrow> xml_error + PatentApplication) \<Rightarrow>
   'c xml_data \<Rightarrow> ParseError + XMLDocument" where
  "ParseApplicationXML fillGrant fillApplication data =
     parse fillGrant fillApplication data DocumentTypeApplication"

text \<open>
  The taxonomy of the specification. The code has no error types of these names: with an
  explicit kind every failure of the decoder comes back as the one error "failed to parse
  as patent grant: cause" (or "as patent application"), and the failures differ by their
  cause only. The reading most favourable to the specification goes by the cause. A
  document-type mismatch ("explicit parse requested, wrong grammar detected") with the
  expected and the actual root is the error of the root-name check, or a parse failure
  caused by the decoder's own check of the root name. A malformed-XML error ("structurally
  invalid input") is a parse failure caused by a syntax error or by the end of the input.
\<close>

definition isDocumentTypeMismatch :: "string \<Rightarrow> string \<Rightarrow> ParseError \<Rightarrow> bool" where
  "isDocumentTypeMismatch expected actual e =
     (case e of
        ExpectedRootElement ex ac \<Rightarrow> ex = expected \<and> ac = actual
      | FailedToParse kind (UnmarshalError msg) \<Rightarrow> msg = elementTypeMessage expected actual
      | FailedToParse kind (SyntaxError msg) \<Rightarrow> False
      | FailedToParse kind EOF \<Rightarrow> False
      | UnrecognizedDocumentType \<Rightarrow> False)"


section \<open>Notions used only in the proofs\<close>

text \<open>
  The language of a pattern, as the set of the words it matches together with the captures
  a match produces. The matcher is sound for it, which is all the proofs need: whatever
  \<open>FindStringSubmatch\<close> returns is a word of the pattern's language.
\<close>

fun lang :: "re \<Rightarrow> (string \<times> string list) set" where
  "lang (Lit l) = {(l, [])}"
| "lang (Rep cls lo hi) =
     {(w, []) | w. set w \<subseteq> set cls \<and> lo \<le> length w \<and>
                  (case hi of None \<Rightarrow> True | Some h \<Rightarrow> length w \<le> h)}"
| "lang (Grp r) = {(w, caps @ [w]) | w caps. (w, caps) \<in> lang r}"
| "lang (Opt r) = insert ([], []) (lang r)"
| "lang (Concat []) = {([], [])}"
| "lang (Concat (r # rs)) =
     {(w1 @ w2, c1 @ c2) | w1 w2 c1 c2. (w1, c1) \<in> lang r \<and> (w2, c2) \<in> lang (Concat rs)}"

text \<open>\<open>digits n w\<close>: \<open>w\<close> is \<open>n\<close> decimal digits.\<close>

definition digits :: "nat \<Rightarrow> string \<Rightarrow> bool" where
  "digits n w = (length w = n \<and> set w \<subseteq> set digitClass)"

text \<open>
  \<open>noLead rs s\<close>: the string \<open>s\<close> starts with none of the encodings \<open>rs\<close>. A string is
  \<open>trimmed\<close> when it neither starts nor ends with a white-space rune.
\<close>

definition noLead :: "string list \<Rightarrow> string \<Rightarrow> bool" where
  "noLead rs s = (find (\<lambda>e. e \<noteq> [] \<and> startsWith e s) rs = None)"

definition trimmed :: "string \<Rightarrow> bool" where
  "trimmed s = (noLead spaceRunes s \<and> noLead (map rev spaceRunes) (rev s))"

text \<open>
  \<open>safeSep rs c\<close>: the byte \<open>c\<close> occurs in no encoding of \<open>rs\<close> that is longer than one byte,
  so that a separator beginning with \<open>c\<close> cannot complete a white-space rune begun before it.
\<close>

definition safeSep :: "string list \<Rightarrow> char \<Rightarrow> bool" where
  "safeSep rs c = list_all (\<lambda>e. 2 \<le> length e \<longrightarrow> c \<notin> set e) rs"

text \<open>
  \<open>pre b\<close>: the builder \<open>b\<close> as a list of fragments, none when nothing has been written.
  \<open>frags cts\<close>: the non-empty trimmed texts of the claim texts \<open>cts\<close>, depth first.
\<close>

definition pre :: "string \<Rightarrow> string list" where
  "pre b = (if b = [] then [] else [b])"

definition frags :: "ClaimText list \<Rightarrow> string list" where
  "frags cts = filter (\<lambda>f. f \<noteq> []) (concat (map claimFragments cts))"

text \<open>
  \<open>emit b fs\<close>: the builder after the fragments \<open>fs\<close> have been written to the builder
  \<open>b\<close>, each after a blank line unless nothing has been written yet.
\<close>

definition emit :: "string \<Rightarrow> string list \<Rightarrow> string" where
  "emit b fs = foldl (\<lambda>b f. (if b = [] then b else b @ ''\<newline>\<newline>'') @ f) b fs"

section \<open>The matcher is sound\<close>

lemma takeWhile_take_subset:
  assumes "k \<le> length (takeWhile P s)"
  shows "set (take k s) \<subseteq> {c. P c}"
proof -
  have "take k s = take k (takeWhile P s @ dropWhile P s)" by simp
  also have "\<dots> = take k (takeWhile P s)" using assms by (simp del: takeWhile_dropWhile_id)
  finally have "set (take k s) \<subseteq> set (takeWhile P s)" by (simp add: set_take_subset)
  then show ?thesis by (auto dest: set_takeWhileD)
qed

lemma rmatch_sound:
  "(s', caps') \<in> set (rmatch r st) \<Longrightarrow>
     \<exists>w c. (w, c) \<in> lang r \<and> fst st = w @ s' \<and> caps' = snd st @ c"
proof (induction r st arbitrary: s' caps' rule: rmatch.induct)
  case (1 l s caps)
  then have "startsWith l s" "s' = drop (length l) s" "caps' = caps"
    by (auto split: if_splits)
  then have "s = l @ s'"
    unfolding startsWith_def by (metis append_take_drop_id)
  then show ?case using \<open>caps' = caps\<close> by simp
next
  case (2 cls lo hi s caps)
  define n where "n = length (takeWhile (\<lambda>c. c \<in> set cls) s)"
  define m where "m = (case hi of None \<Rightarrow> n | Some h \<Rightarrow> min h n)"
  have "set (rmatch (Rep cls lo hi) (s, caps)) = (\<lambda>k. (drop k s, caps)) ` {lo..<Suc m}"
    unfolding rmatch.simps Let_def n_def m_def by (simp del: upt_Suc)
  with 2 obtain k where k: "lo \<le> k" "k \<le> m" "s' = drop k s" "caps' = caps"
    by auto
  have kn: "k \<le> n" and kh: "case hi of None \<Rightarrow> True | Some h \<Rightarrow> k \<le> h"
    using k(2) by (auto simp: m_def split: option.splits)
  have "set (take k s) \<subseteq> set cls"
    using takeWhile_take_subset[of k "\<lambda>c. c \<in> set cls" s] kn by (auto simp: n_def)
  moreover have "length (take k s) = k"
    using kn length_takeWhile_le[of "\<lambda>c. c \<in> set cls" s] by (simp add: n_def)
  ultimately show ?case
    using k kh by (intro exI[of _ "take k s"] exI[of _ "[]"]) (auto split: option.splits)
next
  case (3 r s caps)
  then obtain c0 where m: "(s', c0) \<in> set (rmatch r (s, caps))"
      and c: "caps' = c0 @ [take (length s - length s') s]"
    by auto
  from "3.IH"[OF m] obtain w c1 where "(w, c1) \<in> lang r" "s = w @ s'" "c0 = caps @ c1"
    by auto
  then show ?case using c by auto
next
  case (4 r st)
  then show ?case by fastforce
next
  case (5 st)
  then show ?case by auto
next
  case (6 r rs st)
  then obtain s1 c1 where a: "(s1, c1) \<in> set (rmatch r st)"
      and b: "(s', caps') \<in> set (rmatch (Concat rs) (s1, c1))"
    by auto
  from "6.IH"(1)[OF a] obtain w1 d1
    where 1: "(w1, d1) \<in> lang r" "fst st = w1 @ s1" "c1 = snd st @ d1"
    by blast
  from "6.IH"(2)[OF a b] obtain w2 d2
    where 2: "(w2, d2) \<in> lang (Concat rs)" "s1 = w2 @ s'" "caps' = c1 @ d2"
    by auto
  show ?case using 1 2 by (intro exI[of _ "w1 @ w2"] exI[of _ "d1 @ d2"]) auto
qed

lemma FindStringSubmatch_sound:
  assumes "FindStringSubmatch r s = Some m"
  shows "\<exists>c. (s, c) \<in> lang r \<and> m = s # c"
proof -
  from assms obtain rest caps xs
    where f: "filter (\<lambda>(rest, caps). rest = []) (rmatch r (s, [])) = (rest, caps) # xs"
      and m: "m = s # caps"
    by (auto simp: FindStringSubmatch_def split: list.splits)
  have "(rest, caps) \<in> set (filter (\<lambda>(rest, caps). rest = []) (rmatch r (s, [])))"
    unfolding f by simp
  then have "rest = []" "(rest, caps) \<in> set (rmatch r (s, []))" by auto
  from rmatch_sound[OF this(2)] this(1) m show ?thesis by auto
qed

lemma lang_Lit: "(w, c) \<in> lang (Lit l) \<longleftrightarrow> w = l \<and> c = []"
  by auto

lemma lang_Rep: "(w, c) \<in> lang (Rep cls lo hi) \<longleftrightarrow>
    c = [] \<and> set w \<subseteq> set cls \<and> lo \<le> length w \<and>
    (case hi of None \<Rightarrow> True | Some h \<Rightarrow> length w \<le> h)"
  by auto

lemma lang_Grp: "(w, c) \<in> lang (Grp r) \<longleftrightarrow> (\<exists>c0. c = c0 @ [w] \<and> (w, c0) \<in> lang r)"
  by auto

lemma lang_Opt: "(w, c) \<in> lang (Opt r) \<longleftrightarrow> (w = [] \<and> c = []) \<or> (w, c) \<in> lang r"
  by auto

lemma lang_Nil: "(w, c) \<in> lang (Concat []) \<longleftrightarrow> w = [] \<and> c = []"
  by auto

lemma lang_Cons: "(w, c) \<in> lang (Concat (r # rs)) \<longleftrightarrow>
    (\<exists>w1 w2 c1 c2. w = w1 @ w2 \<and> c = c1 @ c2 \<and> (w1, c1) \<in> lang r \<and>
       (w2, c2) \<in> lang (Concat rs))"
  by auto

lemmas lang_iff = lang_Lit lang_Rep lang_Grp lang_Opt lang_Nil lang_Cons

section \<open>What each pattern matches\<close>

lemma disjoint_classes:
  assumes "set w \<subseteq> set xs" "set w \<subseteq> set ys" "set xs \<inter> set ys = {}"
  shows "w = []"
  using assms by (cases w) auto

lemma upper_digit_disjoint: "set upperClass \<inter> set digitClass = {}"
  by (simp add: upperClass_def digitClass_def)

lemma space_digit_disjoint: "set spaceClass \<inter> set digitClass = {}"
  by (simp add: spaceClass_def digitClass_def)

lemma sep_digit_disjoint: "set (CHR ''/'' # CHR '','' # spaceClass) \<inter> set digitClass = {}"
  by (simp add: spaceClass_def digitClass_def)

lemma grantWithKind_shape:
  assumes "FindStringSubmatch grantWithKindPattern s = Some m"
  shows "\<exists>us ws a p b q c sp u d.
           s = us @ ws @ a @ p @ b @ q @ c @ sp @ u @ d \<and> m = [s, a, b, c] \<and>
           (digits 1 a \<or> digits 2 a) \<and> digits 3 b \<and> digits 3 c \<and>
           length u = 1 \<and> set u \<subseteq> set upperClass"
proof -
  from FindStringSubmatch_sound[OF assms] obtain cs where
    "(s, cs) \<in> lang grantWithKindPattern" "m = s # cs" by blast
  then show ?thesis
    unfolding grantWithKindPattern_def digits_def
    apply (clarsimp simp only: lang_iff)
    apply (rule exI)+
    apply (rule conjI, rule refl)
    apply (auto simp del: lang.simps)
    done
qed

lemma grantWithKind_caps:
  assumes "FindStringSubmatch grantWithKindPattern s = Some m"
  obtains a b c where "m = [s, a, b, c]" "digits 1 a \<or> digits 2 a" "digits 3 b" "digits 3 c"
  using grantWithKind_shape[OF assms] by (elim exE conjE) (rule that; assumption)

lemma grantWithKind_nondigit:
  assumes "FindStringSubmatch grantWithKindPattern s = Some m"
  shows "\<not> set s \<subseteq> set digitClass"
proof
  assume a: "set s \<subseteq> set digitClass"
  from grantWithKind_shape[OF assms] obtain us ws a p b q c sp u d where
     s: "s = us @ ws @ a @ p @ b @ q @ c @ sp @ u @ d"
     and u: "length u = 1" "set u \<subseteq> set upperClass"
    by (elim exE conjE) (rule that; assumption)
  from s a have "set u \<subseteq> set digitClass" by auto
  from disjoint_classes[OF u(2) this upper_digit_disjoint] u(1) show False by simp
qed

lemma applicationWithSlash_shape:
  assumes "FindStringSubmatch applicationWithSlashPattern s = Some m"
  shows "\<exists>us ws a b p c.
           s = us @ ws @ a @ ''/'' @ b @ p @ c \<and> m = [s, a, b, c] \<and>
           digits 2 a \<and> digits 3 b \<and> digits 3 c"
proof -
  from FindStringSubmatch_sound[OF assms] obtain cs where
    "(s, cs) \<in> lang applicationWithSlashPattern" "m = s # cs" by blast
  then show ?thesis
    unfolding applicationWithSlashPattern_def digits_def
    apply (clarsimp simp only: lang_iff)
    apply (rule exI)+
    apply (rule conjI, rule refl)
    apply (auto simp del: lang.simps)
    done
qed

lemma applicationWithSlash_caps:
  assumes "FindStringSubmatch applicationWithSlashPattern s = Some m"
  obtains a b c where "m = [s, a, b, c]" "digits 2 a" "digits 3 b" "digits 3 c"
  using applicationWithSlash_shape[OF assms] by (elim exE conjE) (rule that; assumption)

lemma applicationWithSlash_nondigit:
  assumes "FindStringSubmatch applicationWithSlashPattern s = Some m"
  shows "\<not> set s \<subseteq> set digitClass"
proof
  assume a: "set s \<subseteq> set digitClass"
  from applicationWithSlash_shape[OF assms] obtain us ws a b p c where
     s: "s = us @ ws @ a @ ''/'' @ b @ p @ c"
    by (elim exE conjE) (rule that; assumption)
  have "CHR ''/'' \<in> set s" by (subst s) simp
  with a show False by (auto simp: digitClass_def)
qed

lemma grantWithComma_shape:
  assumes "FindStringSubmatch grantWithCommaPattern s = Some m"
  shows "\<exists>us ws a b c.
           s = us @ ws @ a @ '','' @ b @ '','' @ c \<and> m = [s, a, b, c] \<and>
           (digits 1 a \<or> digits 2 a) \<and> digits 3 b \<and> digits 3 c"
proof -
  from FindStringSubmatch_sound[OF assms] obtain cs where
    "(s, cs) \<in> lang grantWithCommaPattern" "m = s # cs" by blast
  then show ?thesis
    unfolding grantWithCommaPattern_def digits_def
    apply (clarsimp simp only: lang_iff)
    apply (rule exI)+
    apply (rule conjI, rule refl)
    apply (auto simp del: lang.simps)
    done
qed

lemma grantWithComma_caps:
  assumes "FindStringSubmatch grantWithCommaPattern s = Some m"
  obtains a b c where "m = [s, a, b, c]" "digits 1 a \<or> digits 2 a" "digits 3 b" "digits 3 c"
  using grantWithComma_shape[OF assms] by (elim exE conjE) (rule that; assumption)

lemma grantWithComma_nondigit:
  assumes "FindStringSubmatch grantWithCommaPattern s = Some m"
  shows "\<not> set s \<subseteq> set digitClass"
proof
  assume a: "set s \<subseteq> set digitClass"
  from grantWithComma_shape[OF assms] obtain us ws a b c where
     s: "s = us @ ws @ a @ '','' @ b @ '','' @ c"
    by (elim exE conjE) (rule that; assumption)
  have "CHR '','' \<in> set s" by (subst s) simp
  with a show False by (auto simp: digitClass_def)
qed

lemma kindSuffix_caps: "(k, c) \<in> lang kindSuffix \<Longrightarrow> c = []"
  unfolding kindSuffix_def by (clarsimp simp only: lang_iff) auto

lemma kindSuffix_cases:
  assumes "(k, c) \<in> lang kindSuffix"
  shows "k = [] \<or> (\<exists>ws u d. k = ws @ u @ d \<and> set u \<subseteq> set upperClass \<and> length u = 1)"
  using assms unfolding kindSuffix_def
  apply (simp only: lang_Opt)
  apply (erule disjE)
   apply simp
  apply (rule disjI2)
  apply (clarsimp simp only: lang_iff)
  apply (rule exI)+
  apply (rule conjI, rule refl)
  apply auto
  done

lemma kindSuffix_digits:
  assumes "(k, c) \<in> lang kindSuffix" "set k \<subseteq> set digitClass"
  shows "k = []"
proof (rule ccontr)
  assume "k \<noteq> []"
  with kindSuffix_cases[OF assms(1)] obtain ws u d
    where k: "k = ws @ u @ d" and u: "set u \<subseteq> set upperClass" "length u = 1"
    by blast
  from k assms(2) have "set u \<subseteq> set digitClass" by auto
  from disjoint_classes[OF u(1) this upper_digit_disjoint] u(2) show False by simp
qed

lemma publication_shape:
  assumes "FindStringSubmatch publicationPattern s = Some m"
  shows "\<exists>us ws y p n k.
           s = us @ ws @ y @ p @ n @ k \<and> m = [s, y, n] \<and>
           digits 4 y \<and> digits 7 n \<and>
           (us = [] \<or> us = ''US'') \<and> set ws \<subseteq> set spaceClass \<and>
           set p \<subseteq> set (CHR ''/'' # CHR '','' # spaceClass) \<and>
           (k, []) \<in> lang kindSuffix"
proof -
  from FindStringSubmatch_sound[OF assms] obtain cs where
    "(s, cs) \<in> lang publicationPattern" "m = s # cs" by blast
  then show ?thesis
    unfolding publicationPattern_def digits_def
    apply (clarsimp simp only: lang_Cons lang_Grp lang_Nil lang_Rep)
    apply (frule kindSuffix_caps)
    apply (rule exI)+
    apply (rule conjI, rule refl)
    apply (auto simp add: lang_Opt lang_Lit simp del: lang.simps)
    done
qed

lemma publication_caps:
  assumes "FindStringSubmatch publicationPattern s = Some m"
  obtains y n where "m = [s, y, n]" "digits 4 y" "digits 7 n"
  using publication_shape[OF assms] by (elim exE conjE) (rule that; assumption)

lemma publication_digits:
  assumes "FindStringSubmatch publicationPattern s = Some m" "set s \<subseteq> set digitClass"
  obtains y n where "m = [s, y, n]" "y @ n = s" "length s = 11"
proof -
  from publication_shape[OF assms(1)] obtain us ws y p n k where
    s: "s = us @ ws @ y @ p @ n @ k" and m: "m = [s, y, n]"
    and d: "digits 4 y" "digits 7 n"
    and us: "us = [] \<or> us = ''US''" and ws: "set ws \<subseteq> set spaceClass"
    and p: "set p \<subseteq> set (CHR ''/'' # CHR '','' # spaceClass)"
    and k: "(k, []) \<in> lang kindSuffix"
    by (elim exE conjE) (rule that; assumption)
  from s assms(2) have sub: "set us \<subseteq> set digitClass" "set ws \<subseteq> set digitClass"
    "set p \<subseteq> set digitClass" "set k \<subseteq> set digitClass"
    by auto
  from us sub(1) have "us = []" by (auto simp: digitClass_def)
  moreover from disjoint_classes[OF ws sub(2) space_digit_disjoint] have "ws = []" .
  moreover from disjoint_classes[OF p sub(3) sep_digit_disjoint] have "p = []" .
  moreover from kindSuffix_digits[OF k sub(4)] have "k = []" .
  ultimately have yn: "y @ n = s" using s by simp
  from d have "length (y @ n) = 11" by (simp add: digits_def)
  with yn have "length s = 11" by simp
  with m yn show ?thesis by (rule that[of y n])
qed

lemma digitsOnly_sound:
  assumes "MatchString digitsOnlyPattern s"
  shows "s \<noteq> [] \<and> set s \<subseteq> set digitClass"
proof -
  from assms obtain m where "FindStringSubmatch digitsOnlyPattern s = Some m"
    by (auto simp: MatchString_def)
  from FindStringSubmatch_sound[OF this] show ?thesis
    by (auto simp: digitsOnlyPattern_def)
qed

lemma digitsOnly_complete:
  assumes "s \<noteq> []" "set s \<subseteq> set digitClass"
  shows "MatchString digitsOnlyPattern s"
proof -
  have tw: "takeWhile (\<lambda>c. c \<in> set digitClass) s = s"
    using assms(2) by (simp add: subset_iff)
  have "1 \<le> length s" using assms(1) by (cases s) auto
  then have "[1..<Suc (length s)] = [1..<length s] @ [length s]"
    by simp
  then have "rmatch digitsOnlyPattern (s, []) =
      ([], []) # map (\<lambda>k. (drop k s, [])) (rev [1..<length s])"
    by (simp add: digitsOnlyPattern_def tw Let_def del: upt_Suc)
  then show ?thesis
    by (simp add: MatchString_def FindStringSubmatch_def)
qed

section \<open>The normalizer\<close>

lemma Normalize_fallback:
  assumes "input \<noteq> []"
    and "FindStringSubmatch grantWithKindPattern (TrimSpace input) = None"
    and "FindStringSubmatch applicationWithSlashPattern (TrimSpace input) = None"
    and "FindStringSubmatch grantWithCommaPattern (TrimSpace input) = None"
    and "FindStringSubmatch publicationPattern (TrimSpace input) = None"
    and "MatchString digitsOnlyPattern (TrimSpace input)"
  shows "NormalizePatentNumber input =
     (if length (TrimSpace input) = 7 then
        Inr \<lparr>Original = input, Normalized = TrimSpace input, ApplicationNo = [],
             Type = PatentNumberTypeGrant, PatentNumber.Country = ''US''\<rparr>
      else if length (TrimSpace input) = 8 \<or> length (TrimSpace input) = 9 then
        Inr \<lparr>Original = input, Normalized = TrimSpace input, ApplicationNo = TrimSpace input,
             Type = PatentNumberTypeApplication, PatentNumber.Country = ''US''\<rparr>
      else if length (TrimSpace input) = 11 then
        Inr \<lparr>Original = input, Normalized = TrimSpace input, ApplicationNo = [],
             Type = PatentNumberTypePublication, PatentNumber.Country = ''US''\<rparr>
      else Inl (InvalidLength (length (TrimSpace input)) input))"
  using assms by (simp add: NormalizePatentNumber_def Let_def)

lemma Normalize_cases:
  assumes "NormalizePatentNumber input = Inr pn"
  shows "Original pn = input \<and> PatentNumber.Country pn = ''US'' \<and>
     (Type pn = PatentNumberTypeGrant \<and> ApplicationNo pn = [] \<and>
        (digits 7 (Normalized pn) \<or> digits 8 (Normalized pn)) \<or>
      Type pn = PatentNumberTypeApplication \<and> ApplicationNo pn = Normalized pn \<and>
        (digits 8 (Normalized pn) \<or> digits 9 (Normalized pn)) \<or>
      Type pn = PatentNumberTypePublication \<and> ApplicationNo pn = [] \<and>
        digits 11 (Normalized pn))"
proof -
  let ?c = "TrimSpace input"
  from assms have ne: "input \<noteq> []"
    by (auto simp: NormalizePatentNumber_def split: if_splits)
  show ?thesis
  proof (cases "FindStringSubmatch grantWithKindPattern ?c")
    case (Some m)
    from grantWithKind_caps[OF Some] obtain a b c where
      m: "m = [?c, a, b, c]" and d: "digits 1 a \<or> digits 2 a" "digits 3 b" "digits 3 c"
      by blast
    from assms Some ne m have pn: "pn = \<lparr>Original = input, Normalized = a @ b @ c,
        ApplicationNo = [], Type = PatentNumberTypeGrant, PatentNumber.Country = ''US''\<rparr>"
      by (simp add: NormalizePatentNumber_def Let_def)
    from d have "digits 7 (a @ b @ c) \<or> digits 8 (a @ b @ c)"
      by (auto simp: digits_def)
    with pn show ?thesis by simp
  next
    case n1: None
    show ?thesis
    proof (cases "FindStringSubmatch applicationWithSlashPattern ?c")
      case (Some m)
      from applicationWithSlash_caps[OF Some] obtain a b c where
        m: "m = [?c, a, b, c]" and d: "digits 2 a" "digits 3 b" "digits 3 c"
        by blast
      from assms Some n1 ne m have pn: "pn = \<lparr>Original = input, Normalized = a @ b @ c,
          ApplicationNo = a @ b @ c, Type = PatentNumberTypeApplication, PatentNumber.Country = ''US''\<rparr>"
        by (simp add: NormalizePatentNumber_def Let_def)
      from d have "digits 8 (a @ b @ c)" by (auto simp: digits_def)
      with pn show ?thesis by simp
    next
      case n2: None
      show ?thesis
      proof (cases "FindStringSubmatch grantWithCommaPattern ?c")
        case (Some m)
        from grantWithComma_caps[OF Some] obtain a b c where
          m: "m = [?c, a, b, c]" and d: "digits 1 a \<or> digits 2 a" "digits 3 b" "digits 3 c"
          by blast
        from assms Some n1 n2 ne m have pn: "pn = \<lparr>Original = input, Normalized = a @ b @ c,
            ApplicationNo = [], Type = PatentNumberTypeGrant, PatentNumber.Country = ''US''\<rparr>"
          by (simp add: NormalizePatentNumber_def Let_def)
        from d have "digits 7 (a @ b @ c) \<or> digits 8 (a @ b @ c)"
          by (auto simp: digits_def)
        with pn show ?thesis by simp
      next
        case n3: None
        show ?thesis
        proof (cases "FindStringSubmatch publicationPattern ?c")
          case (Some m)
          from publication_caps[OF Some] obtain y n where
            m: "m = [?c, y, n]" and d: "digits 4 y" "digits 7 n"
            by blast
          from assms Some n1 n2 n3 ne m have pn: "pn = \<lparr>Original = input, Normalized = y @ n,
              ApplicationNo = [], Type = PatentNumberTypePublication, PatentNumber.Country = ''US''\<rparr>"
            by (simp add: NormalizePatentNumber_def Let_def)
          from d have "digits 11 (y @ n)" by (auto simp: digits_def)
          with pn show ?thesis by simp
        next
          case n4: None
          have "NormalizePatentNumber input = Inl (UnrecognizedFormat input)"
            if "\<not> MatchString digitsOnlyPattern ?c"
            using that n1 n2 n3 n4 ne by (simp add: NormalizePatentNumber_def Let_def)
          with assms have ms: "MatchString digitsOnlyPattern ?c" by auto
          from digitsOnly_sound[OF ms] have dg: "set ?c \<subseteq> set digitClass" by simp
          note eq = Normalize_fallback[OF ne n1 n2 n3 n4 ms]
          consider "length ?c = 7" | "length ?c = 8" | "length ?c = 9" | "length ?c = 11"
            | "length ?c \<noteq> 7" "length ?c \<noteq> 8" "length ?c \<noteq> 9" "length ?c \<noteq> 11"
            by blast
          then show ?thesis
          proof cases
            case 1
            with eq assms have "pn = \<lparr>Original = input, Normalized = ?c, ApplicationNo = [],
                Type = PatentNumberTypeGrant, PatentNumber.Country = ''US''\<rparr>" by simp
            with 1 dg show ?thesis by (simp add: digits_def)
          next
            case 2
            with eq assms have "pn = \<lparr>Original = input, Normalized = ?c, ApplicationNo = ?c,
                Type = PatentNumberTypeApplication, PatentNumber.Country = ''US''\<rparr>" by simp
            with 2 dg show ?thesis by (simp add: digits_def)
          next
            case 3
            with eq assms have "pn = \<lparr>Original = input, Normalized = ?c, ApplicationNo = ?c,
                Type = PatentNumberTypeApplication, PatentNumber.Country = ''US''\<rparr>" by simp
            with 3 dg show ?thesis by (simp add: digits_def)
          next
            case 4
            with eq assms have "pn = \<lparr>Original = input, Normalized = ?c, ApplicationNo = [],
                Type = PatentNumberTypePublication, PatentNumber.Country = ''US''\<rparr>" by simp
            with 4 dg show ?thesis by (simp add: digits_def)
          next
            case 5
            with eq assms show ?thesis by simp
          qed
        qed
      qed
    qed
  qed
qed

text \<open>
  Claim C1. Whenever \<open>NormalizePatentNumber\<close> succeeds, the returned number satisfies the
  invariants of the data model: \<open>Normalized\<close> is non-empty and consists of decimal digits
  only; for an application the application number equals \<open>Normalized\<close>; a publication has
  exactly 11 digits; a grant has 7 or 8 digits; and the application number is empty for
  grants and publications.
\<close>

theorem NormalizePatentNumber_invariants:
  assumes "NormalizePatentNumber input = Inr pn"
  shows "Normalized pn \<noteq> [] \<and> set (Normalized pn) \<subseteq> set digitClass \<and>
     (Type pn = PatentNumberTypeApplication \<longrightarrow> ApplicationNo pn = Normalized pn) \<and>
     (Type pn = PatentNumberTypePublication \<longrightarrow> length (Normalized pn) = 11) \<and>
     (Type pn = PatentNumberTypeGrant \<longrightarrow>
        length (Normalized pn) = 7 \<or> length (Normalized pn) = 8) \<and>
     (Type pn = PatentNumberTypeGrant \<or> Type pn = PatentNumberTypePublication \<longrightarrow>
        ApplicationNo pn = [])"
  using Normalize_cases[OF assms] by (auto simp: digits_def)

theorem NormalizePatentNumber_invariants_witness:
  "NormalizePatentNumber ''US 11,646,472 B2'' =
     Inr \<lparr>Original = ''US 11,646,472 B2'', Normalized = ''11646472'', ApplicationNo = [],
          Type = PatentNumberTypeGrant, PatentNumber.Country = ''US''\<rparr> \<and>
   set ''11646472'' \<subseteq> set digitClass \<and> length ''11646472'' = 8"
proof -
  have h: "NormalizePatentNumber ''US 11,646,472 B2'' =
     Inr \<lparr>Original = ''US 11,646,472 B2'', Normalized = ''11646472'', ApplicationNo = [],
          Type = PatentNumberTypeGrant, PatentNumber.Country = ''US''\<rparr>"
    by code_simp
  from NormalizePatentNumber_invariants[OF h] h show ?thesis by simp
qed

text \<open>
  Claim C9. Whenever \<open>NormalizePatentNumber\<close> succeeds, the country of the result is "US"
  and \<open>Original\<close> is the input exactly as it was given (not trimmed), whatever prefix,
  punctuation or kind code the input carried.
\<close>

theorem NormalizePatentNumber_country_original:
  assumes "NormalizePatentNumber input = Inr pn"
  shows "PatentNumber.Country pn = ''US'' \<and> Original pn = input"
  using Normalize_cases[OF assms] by simp

theorem NormalizePatentNumber_country_original_witness:
  "NormalizePatentNumber ''  2025/0087686 A1 '' =
     Inr \<lparr>Original = ''  2025/0087686 A1 '', Normalized = ''20250087686'', ApplicationNo = [],
          Type = PatentNumberTypePublication, PatentNumber.Country = ''US''\<rparr> \<and>
   PatentNumber.Country \<lparr>Original = ''  2025/0087686 A1 '', Normalized = ''20250087686'', ApplicationNo = [],
          Type = PatentNumberTypePublication, PatentNumber.Country = ''US''\<rparr> = ''US'' \<and>
   Original \<lparr>Original = ''  2025/0087686 A1 '', Normalized = ''20250087686'', ApplicationNo = [],
          Type = PatentNumberTypePublication, PatentNumber.Country = ''US''\<rparr> = ''  2025/0087686 A1 ''"
proof -
  have h: "NormalizePatentNumber ''  2025/0087686 A1 '' =
     Inr \<lparr>Original = ''  2025/0087686 A1 '', Normalized = ''20250087686'', ApplicationNo = [],
          Type = PatentNumberTypePublication, PatentNumber.Country = ''US''\<rparr>"
    by code_simp
  from NormalizePatentNumber_country_original[OF h] h show ?thesis by simp
qed

text \<open>
  Claim C10. Whenever \<open>NormalizePatentNumber\<close> succeeds with an application, \<open>Normalized\<close>
  has exactly 8 or 9 digits: the pattern with a slash yields 8 digits, and the fallback on
  the digit count yields an application only for 8 or 9 digits.
\<close>

theorem NormalizePatentNumber_application_length:
  assumes "NormalizePatentNumber input = Inr pn"
    and "Type pn = PatentNumberTypeApplication"
  shows "(length (Normalized pn) = 8 \<or> length (Normalized pn) = 9) \<and>
         set (Normalized pn) \<subseteq> set digitClass"
  using Normalize_cases[OF assms(1)] assms(2) by (auto simp: digits_def)

theorem NormalizePatentNumber_application_length_witness:
  "NormalizePatentNumber ''US 17/248,024'' =
     Inr \<lparr>Original = ''US 17/248,024'', Normalized = ''17248024'',
          ApplicationNo = ''17248024'', Type = PatentNumberTypeApplication,
          PatentNumber.Country = ''US''\<rparr> \<and>
   length ''17248024'' = 8"
proof -
  have h: "NormalizePatentNumber ''US 17/248,024'' =
     Inr \<lparr>Original = ''US 17/248,024'', Normalized = ''17248024'',
          ApplicationNo = ''17248024'', Type = PatentNumberTypeApplication,
          PatentNumber.Country = ''US''\<rparr>"
    by code_simp
  from NormalizePatentNumber_application_length[OF h] h show ?thesis by simp
qed

text \<open>
  Claim C3. When the trimmed input consists of decimal digits only (at least one), the
  result depends on the number of digits alone: 7 digits give a grant; 8 or 9 digits give
  an application whose application number is the digits; 11 digits give a publication; any
  other length fails with the invalid-length error. (None of the first three patterns
  matches such an input, and the publication pattern matches it exactly when it has 11
  digits, with the same result as the fallback.) In particular "11646472" is an
  application.
\<close>

theorem NormalizePatentNumber_digits_only:
  assumes "TrimSpace input \<noteq> []" and "set (TrimSpace input) \<subseteq> set digitClass"
  shows "NormalizePatentNumber input =
     (if length (TrimSpace input) = 7 then
        Inr \<lparr>Original = input, Normalized = TrimSpace input, ApplicationNo = [],
             Type = PatentNumberTypeGrant, PatentNumber.Country = ''US''\<rparr>
      else if length (TrimSpace input) = 8 \<or> length (TrimSpace input) = 9 then
        Inr \<lparr>Original = input, Normalized = TrimSpace input, ApplicationNo = TrimSpace input,
             Type = PatentNumberTypeApplication, PatentNumber.Country = ''US''\<rparr>
      else if length (TrimSpace input) = 11 then
        Inr \<lparr>Original = input, Normalized = TrimSpace input, ApplicationNo = [],
             Type = PatentNumberTypePublication, PatentNumber.Country = ''US''\<rparr>
      else Inl (InvalidLength (length (TrimSpace input)) input))"
proof -
  let ?c = "TrimSpace input"
  have "TrimSpace [] = []" by (simp add: TrimSpace_def)
  with assms(1) have ne: "input \<noteq> []" by auto
  have n1: "FindStringSubmatch grantWithKindPattern ?c = None"
    using grantWithKind_nondigit[of ?c] assms(2) by (cases "FindStringSubmatch grantWithKindPattern ?c") auto
  have n2: "FindStringSubmatch applicationWithSlashPattern ?c = None"
    using applicationWithSlash_nondigit[of ?c] assms(2)
    by (cases "FindStringSubmatch applicationWithSlashPattern ?c") auto
  have n3: "FindStringSubmatch grantWithCommaPattern ?c = None"
    using grantWithComma_nondigit[of ?c] assms(2)
    by (cases "FindStringSubmatch grantWithCommaPattern ?c") auto
  show ?thesis
  proof (cases "FindStringSubmatch publicationPattern ?c")
    case None
    from Normalize_fallback[OF ne n1 n2 n3 None digitsOnly_complete[OF assms]]
    show ?thesis .
  next
    case (Some m)
    from publication_digits[OF Some assms(2)] obtain y n
      where m: "m = [?c, y, n]" and yn: "y @ n = ?c" and len: "length ?c = 11"
      by blast
    from ne n1 n2 n3 Some m have "NormalizePatentNumber input =
        Inr \<lparr>Original = input, Normalized = y @ n, ApplicationNo = [],
             Type = PatentNumberTypePublication, PatentNumber.Country = ''US''\<rparr>"
      by (simp add: NormalizePatentNumber_def Let_def)
    with yn len show ?thesis by simp
  qed
qed

theorem NormalizePatentNumber_digits_only_witness:
  "TrimSpace ''11646472'' \<noteq> [] \<and> set (TrimSpace ''11646472'') \<subseteq> set digitClass \<and>
   NormalizePatentNumber ''11646472'' =
     Inr \<lparr>Original = ''11646472'', Normalized = ''11646472'', ApplicationNo = ''11646472'',
          Type = PatentNumberTypeApplication, PatentNumber.Country = ''US''\<rparr>"
proof -
  have t: "TrimSpace ''11646472'' = ''11646472''" by code_simp
  have h1: "TrimSpace ''11646472'' \<noteq> []" unfolding t by simp
  have h2: "set (TrimSpace ''11646472'') \<subseteq> set digitClass"
    unfolding t by (simp add: digitClass_def)
  from NormalizePatentNumber_digits_only[OF h1 h2] h1 h2 show ?thesis
    unfolding t by simp
qed

section \<open>Trimming and joining\<close>

lemma noLead_iff: "noLead rs s \<longleftrightarrow> (\<forall>e\<in>set rs. e \<noteq> [] \<longrightarrow> \<not> startsWith e s)"
  by (auto simp: noLead_def find_None_iff)

lemma noLead_Nil: "noLead rs []"
  by (auto simp: noLead_iff startsWith_def)

lemma trimLeft_noLead: "noLead rs (trimLeft rs s)"
proof (induction rs s rule: trimLeft.induct)
  case (1 rs)
  show ?case by (simp add: noLead_Nil)
next
  case (2 rs c cs)
  show ?case
  proof (cases "find (\<lambda>e. e \<noteq> [] \<and> startsWith e (c # cs)) rs")
    case None
    then show ?thesis by (simp add: noLead_def)
  next
    case (Some e)
    with 2 show ?thesis by simp
  qed
qed

lemma trimLeft_id: "noLead rs s \<Longrightarrow> trimLeft rs s = s"
  by (cases s) (auto simp: noLead_def)

lemma trimLeft_suffix: "\<exists>p. s = p @ trimLeft rs s"
proof (induction rs s rule: trimLeft.induct)
  case (1 rs)
  show ?case by simp
next
  case (2 rs c cs)
  show ?case
  proof (cases "find (\<lambda>e. e \<noteq> [] \<and> startsWith e (c # cs)) rs")
    case None
    then show ?thesis by simp
  next
    case (Some e)
    from 2[OF Some] obtain p where p: "drop (length e - 1) cs = p @ trimLeft rs (drop (length e - 1) cs)"
      by blast
    have t: "trimLeft rs (c # cs) = trimLeft rs (drop (length e - 1) cs)"
      using Some by simp
    have "c # cs = (c # take (length e - 1) cs) @ drop (length e - 1) cs" by simp
    also have "\<dots> = (c # take (length e - 1) cs @ p) @ trimLeft rs (drop (length e - 1) cs)"
      using p by simp
    finally have "c # cs = (c # take (length e - 1) cs @ p) @ trimLeft rs (c # cs)"
      unfolding t .
    then show ?thesis by (rule exI)
  qed
qed

lemma noLead_prefix:
  assumes "noLead rs (p @ q)"
  shows "noLead rs p"
  unfolding noLead_iff
proof (intro ballI impI notI)
  fix e assume e: "e \<in> set rs" "e \<noteq> []" "startsWith e p"
  from e(3) have t: "take (length e) p = e" by (simp add: startsWith_def)
  have "length (take (length e) p) = length e" by (simp only: t)
  then have "length e \<le> length p" by simp
  with t have "startsWith e (p @ q)" by (simp add: startsWith_def)
  with assms e show False by (auto simp: noLead_iff)
qed

lemma TrimSpace_trimmed: "trimmed (TrimSpace s)"
proof -
  let ?t = "trimLeft spaceRunes s"
  let ?u = "trimLeft (map rev spaceRunes) (rev ?t)"
  have ts: "TrimSpace s = rev ?u" by (simp add: TrimSpace_def)
  have 1: "noLead (map rev spaceRunes) (rev (TrimSpace s))"
    unfolding ts by (simp add: trimLeft_noLead)
  obtain p where "rev ?t = p @ ?u" using trimLeft_suffix by blast
  then have "?t = rev ?u @ rev p" by (metis rev_append rev_rev_ident)
  moreover have "noLead spaceRunes ?t" by (rule trimLeft_noLead)
  ultimately have "noLead spaceRunes (rev ?u)" using noLead_prefix by metis
  with 1 show ?thesis by (simp add: trimmed_def ts)
qed

lemma TrimSpace_id: "trimmed s \<Longrightarrow> TrimSpace s = s"
  by (simp add: trimmed_def TrimSpace_def trimLeft_id)

lemma TrimSpace_idem: "TrimSpace (TrimSpace s) = TrimSpace s"
  by (rule TrimSpace_id[OF TrimSpace_trimmed])

lemma noLead_append_sep:
  assumes "noLead rs f" "f \<noteq> []" "safeSep rs c"
  shows "noLead rs (f @ c # r)"
  unfolding noLead_iff
proof (intro ballI impI notI)
  fix e assume e: "e \<in> set rs" "e \<noteq> []" "startsWith e (f @ c # r)"
  from e(3) have t: "take (length e) (f @ c # r) = e" by (simp add: startsWith_def)
  show False
  proof (cases "length e \<le> length f")
    case True
    with t have "startsWith e f" by (simp add: startsWith_def)
    with assms(1) e show False by (auto simp: noLead_iff)
  next
    case False
    then have "take (length e) (f @ c # r) = f @ c # take (length e - Suc (length f)) r"
      by (simp add: take_Cons')
    with t have ef: "e = f @ c # take (length e - Suc (length f)) r" by simp
    then have "c \<in> set e" by (metis in_set_conv_decomp)
    moreover from False assms(2) have "2 \<le> length e" by (cases f) auto
    ultimately show False using assms(3) e(1) by (auto simp: safeSep_def list_all_iff)
  qed
qed

lemma joinWith_Cons: "joinWith sep (x # xs) = x @ (if xs = [] then [] else sep @ joinWith sep xs)"
  by (cases xs) auto

lemma joinWith_append:
  "xs \<noteq> [] \<Longrightarrow> ys \<noteq> [] \<Longrightarrow> joinWith sep (xs @ ys) = joinWith sep xs @ sep @ joinWith sep ys"
  by (induction xs) (auto simp: joinWith_Cons)

lemma rev_joinWith: "rev (joinWith sep xs) = joinWith (rev sep) (rev (map rev xs))"
proof (induction xs)
  case Nil
  show ?case by simp
next
  case (Cons x xs)
  show ?case
  proof (cases "xs = []")
    case True
    then show ?thesis by simp
  next
    case False
    then show ?thesis using Cons
      by (simp add: joinWith_Cons joinWith_append)
  qed
qed

lemma joinWith_noLead:
  assumes "\<forall>f\<in>set fs. f \<noteq> [] \<and> noLead rs f" "sep = c # sep'" "safeSep rs c"
  shows "noLead rs (joinWith sep fs)"
proof (cases fs)
  case Nil
  then show ?thesis by (simp add: noLead_Nil)
next
  case (Cons f fs')
  with assms(1) have f: "f \<noteq> []" "noLead rs f" by auto
  show ?thesis
  proof (cases "fs' = []")
    case True
    with Cons f show ?thesis by simp
  next
    case False
    with Cons have "joinWith sep fs = f @ c # (sep' @ joinWith sep fs')"
      by (simp add: joinWith_Cons assms(2))
    with noLead_append_sep[OF f(2) f(1) assms(3)] show ?thesis by simp
  qed
qed

lemma safeSep_rev: "safeSep (map rev rs) c = safeSep rs c"
  by (simp add: safeSep_def list_all_iff)

lemma joinWith_trimmed:
  assumes "\<forall>f\<in>set fs. f \<noteq> [] \<and> trimmed f"
    and "sep = c # sep'" "rev sep = c' # sep''"
    and "safeSep spaceRunes c" "safeSep spaceRunes c'"
  shows "trimmed (joinWith sep fs)"
proof -
  have 1: "noLead spaceRunes (joinWith sep fs)"
    using assms(1) by (intro joinWith_noLead[OF _ assms(2) assms(4)]) (auto simp: trimmed_def)
  have "\<forall>f\<in>set (rev (map rev fs)). f \<noteq> [] \<and> noLead (map rev spaceRunes) f"
    using assms(1) by (auto simp: trimmed_def)
  from joinWith_noLead[OF this assms(3)] assms(5)
  have "noLead (map rev spaceRunes) (rev (joinWith sep fs))"
    by (simp add: rev_joinWith safeSep_rev)
  with 1 show ?thesis by (simp add: trimmed_def)
qed

lemma safeSep_space: "safeSep spaceRunes CHR '' ''"
  by (simp add: safeSep_def spaceRunes_def)

lemma safeSep_newline: "safeSep spaceRunes CHR 0x0A"
  by (simp add: safeSep_def spaceRunes_def)

section \<open>The text of a claim\<close>

lemma joinWith_eq_Nil: "\<forall>x\<in>set xs. x \<noteq> [] \<Longrightarrow> joinWith sep xs = [] \<longleftrightarrow> xs = []"
  by (cases xs) (auto simp: joinWith_Cons)

lemma joinWith_pre:
  assumes "\<forall>x\<in>set xs. x \<noteq> []"
  shows "joinWith sep (ws @ pre (joinWith sep xs) @ ys) = joinWith sep (ws @ xs @ ys)"
proof (cases "xs = []")
  case True
  then show ?thesis by (simp add: pre_def)
next
  case False
  with joinWith_eq_Nil[OF assms, of sep] have p: "pre (joinWith sep xs) = [joinWith sep xs]"
    by (simp add: pre_def)
  have a: "joinWith sep ([joinWith sep xs] @ ys) = joinWith sep (xs @ ys)"
    using False by (cases "ys = []") (simp_all add: joinWith_append joinWith_Cons)
  show ?thesis
  proof (cases "ws = []")
    case True
    with a p show ?thesis by simp
  next
    case wf: False
    have "joinWith sep (ws @ ([joinWith sep xs] @ ys)) = joinWith sep ws @ sep @ joinWith sep ([joinWith sep xs] @ ys)"
      using wf by (intro joinWith_append) auto
    also have "\<dots> = joinWith sep ws @ sep @ joinWith sep (xs @ ys)" using a by simp
    also have "\<dots> = joinWith sep (ws @ (xs @ ys))"
      using wf False by (intro joinWith_append[symmetric]) auto
    finally show ?thesis using p by simp
  qed
qed

lemma pre_nonempty: "\<forall>x\<in>set (pre b). x \<noteq> []"
  by (simp add: pre_def)

lemma frags_nonempty: "\<forall>x\<in>set (frags cts). x \<noteq> []"
  by (simp add: frags_def)

lemma frags_Cons:
  "frags (ClaimText.ClaimText ident txt ns subs sups its bs # cts) =
     pre (TrimSpace txt) @ frags ns @ frags cts"
  by (simp add: frags_def pre_def)

lemma frags_trimmed: "\<forall>f\<in>set (frags cts). f \<noteq> [] \<and> trimmed f"
proof -
  have "\<forall>f\<in>set (claimFragments ct). trimmed f" for ct
    by (induction ct) (auto simp: TrimSpace_trimmed)
  then show ?thesis by (auto simp: frags_def)
qed

lemma step_text:
  "(if t \<noteq> [] then (if length b > 0 then b @ '' '' else b) @ t else b)
     = joinWith '' '' (pre b @ pre t)"
  by (simp add: pre_def)

lemma claim_loop:
  "extractClaimTextRecursive cts depth = joinWith '' '' (frags cts)"
  "claimTextLoop cts depth b = joinWith '' '' (pre b @ frags cts)"
proof (induction cts depth and cts depth b rule: extractClaimTextRecursive_claimTextLoop.induct)
  case (1 claimTexts depth)
  have s: "'' '' = CHR '' '' # []" "rev '' '' = CHR '' '' # []" by simp_all
  have "trimmed (joinWith '' '' (frags claimTexts))"
    by (rule joinWith_trimmed[OF frags_trimmed s safeSep_space safeSep_space])
  with 1 show ?case by (simp add: pre_def TrimSpace_id)
next
  case (2 depth builder)
  show ?case by (simp add: pre_def frags_def)
next
  case (3 ident t0 ns subs sups its bs cts depth builder)
  define t where "t = TrimSpace t0"
  define b1 where "b1 = (if t \<noteq> [] then (if 0 < length builder then builder @ '' '' else builder) @ t
                          else builder)"
  define nested where "nested = extractClaimTextRecursive ns (depth + 1)"
  define b2 where "b2 = (if nested \<noteq> [] then (if 0 < length b1 then b1 @ '' '' else b1) @ nested
                          else b1)"
  have n: "nested = joinWith '' '' (frags ns)"
  proof (cases "ns = []")
    case True
    then show ?thesis by (simp add: nested_def frags_def TrimSpace_def)
  next
    case False
    then show ?thesis unfolding nested_def by (intro "3.IH"(1)[OF refl refl]) simp
  qed
  have unfold: "claimTextLoop (ClaimText.ClaimText ident t0 ns subs sups its bs # cts) depth builder
      = claimTextLoop cts depth b2"
  proof (cases "ns = []")
    case True
    with n have "nested = []" by (simp add: frags_def)
    with True show ?thesis by (simp add: Let_def b2_def b1_def t_def)
  next
    case False
    then show ?thesis by (simp add: Let_def b2_def b1_def t_def nested_def)
  qed
  have b2_alt: "b2 = (if 0 < length ns
           then let nested = extractClaimTextRecursive ns (depth + 1)
                in if nested \<noteq> [] then (if 0 < length b1 then b1 @ '' '' else b1) @ nested else b1
           else b1)"
  proof (cases "ns = []")
    case True
    with n have "nested = []" by (simp add: frags_def)
    with True show ?thesis by (simp add: b2_def)
  next
    case False
    then show ?thesis by (simp add: b2_def nested_def Let_def)
  qed
  have loop: "claimTextLoop cts depth b2 = joinWith '' '' (pre b2 @ frags cts)"
    unfolding b2_alt b1_def t_def by (rule "3.IH"(2)[OF refl refl refl])
  have b1': "b1 = joinWith '' '' (pre builder @ pre t)"
    unfolding b1_def by (rule step_text)
  have b2': "b2 = joinWith '' '' (pre b1 @ pre nested)"
    unfolding b2_def by (rule step_text)
  have ne1: "\<forall>x\<in>set (pre builder @ pre t). x \<noteq> []"
    and ne2: "\<forall>x\<in>set (pre b1 @ pre nested). x \<noteq> []"
    by (simp_all add: pre_def)
  have "joinWith '' '' (pre b2 @ frags cts) = joinWith '' '' ((pre b1 @ pre nested) @ frags cts)"
    unfolding b2' using joinWith_pre[OF ne2, of "'' ''" "[]" "frags cts"] by simp
  also have "\<dots> = joinWith '' '' (pre b1 @ frags ns @ frags cts)"
    unfolding n using joinWith_pre[OF frags_nonempty, of "'' ''" "pre b1" ns "frags cts"] by simp
  also have "\<dots> = joinWith '' '' ((pre builder @ pre t) @ frags ns @ frags cts)"
    unfolding b1' using joinWith_pre[OF ne1, of "'' ''" "[]" "frags ns @ frags cts"] by simp
  finally show ?case
    unfolding unfold loop by (simp add: frags_Cons t_def)
qed

lemma ExtractClaimText_Some: "ExtractClaimText (Some c) = claim_text c"
  by (simp add: ExtractClaimText_def claim_text_def claim_loop(1) frags_def
        del: extractClaimTextRecursive.simps)

lemma claimFragments_dropSpans: "claimFragments (dropSpans ct) = claimFragments ct"
  by (induction ct) (simp add: map_idI cong: map_cong)

lemma claim_text_dropSpans:
  "claim_text (c\<lparr>Claim.ClaimText := map dropSpans (Claim.ClaimText c)\<rparr>) = claim_text c"
  by (simp add: claim_text_def claimFragments_dropSpans comp_def)

text \<open>
  Claim C2. The text of a claim is the depth-first, left-to-right sequence of the trimmed
  texts of its claim-text nodes (a node's own text, then the texts of its nested nodes in
  order), without the empty ones, joined by single spaces: \<open>claim_text\<close>. Every
  non-empty fragment appears once, at every depth. The formatting spans contribute
  nothing: removing all of them, at every depth, leaves the extracted text unchanged.
\<close>

theorem ExtractClaimText_depth_first:
  "ExtractClaimText (Some c) = claim_text c \<and>
   ExtractClaimText (Some (c\<lparr>Claim.ClaimText := map dropSpans (Claim.ClaimText c)\<rparr>))
     = ExtractClaimText (Some c)"
  by (simp add: ExtractClaimText_Some claim_text_dropSpans)

theorem ExtractClaimText_depth_first_witness:
  "ExtractClaimText (Some \<lparr>Claim.ID = ''c1'', Num = ''1'', ClaimText =
      [ClaimText.ClaimText [] ''A: '' 
         [ClaimText.ClaimText [] '' b;'' [ClaimText.ClaimText [] ''c'' [] [\<lparr>Sub.Text = ''2''\<rparr>] [] [] []] [] [] [] [],
          ClaimText.ClaimText [] '' '' [] [] [] [] [],
          ClaimText.ClaimText [] ''d.'' [] [] [] [] []] [] [] [] []]\<rparr>) = ''A: b; c d.''"
  using ExtractClaimText_depth_first[of "\<lparr>Claim.ID = ''c1'', Num = ''1'', ClaimText =
      [ClaimText.ClaimText [] ''A: '' 
         [ClaimText.ClaimText [] '' b;'' [ClaimText.ClaimText [] ''c'' [] [\<lparr>Sub.Text = ''2''\<rparr>] [] [] []] [] [] [] [],
          ClaimText.ClaimText [] '' '' [] [] [] [] [],
          ClaimText.ClaimText [] ''d.'' [] [] [] [] []] [] [] [] []]\<rparr>"]
  by code_simp

section \<open>The formatted claims\<close>

lemma Sscanf_d_Nil: "Sscanf_d [] = Inl EndOfInput"
  by (simp add: Sscanf_d_def)

lemma formattedLoop_step:
  "formattedLoop (c # cs) (int k) b =
     formattedLoop cs (int (Suc k))
       (b @ (if 0 < k then ''\<newline>\<newline>'' else []) @ scannedBlock (Suc k) c)"
proof -
  have num: "(if Claim.Num c \<noteq> [] then
               (case Sscanf_d (Claim.Num c) of Inl err \<Rightarrow> int k + 1 | Inr n \<Rightarrow> n)
             else int k + 1) = scannedNumber (Suc k) c"
    by (simp add: scannedNumber_def Sscanf_d_Nil add.commute split: sum.splits)
  have "formattedLoop (c # cs) (int k) b =
     formattedLoop cs (int k + 1)
       ((if 0 < int k then b @ ''\<newline>\<newline>'' else b) @ ''CLAIM '' @
         formatInt (scannedNumber (Suc k) c) @ '':\<newline>'' @ ExtractClaimText (Some c))"
    unfolding formattedLoop.simps Let_def num ..
  also have "int k + 1 = int (Suc k)" by simp
  finally show ?thesis
    by (simp add: scannedBlock_def ExtractClaimText_Some)
qed

lemma formattedLoop_eq:
  "formattedLoop cs (int k) b =
     b @ concat (map (\<lambda>(j, c). (if 0 < j then ''\<newline>\<newline>'' else []) @ scannedBlock (Suc j) c)
                     (enumerate k cs))"
proof (induction cs arbitrary: k b)
  case Nil
  show ?case by simp
next
  case (Cons c cs)
  show ?case
    unfolding formattedLoop_step Cons by simp
qed

lemma concat_blocks:
  "concat (map (\<lambda>(j, c). (if 0 < j then sep else []) @ f j c) (enumerate k cs)) =
     (if 0 < k \<and> cs \<noteq> [] then sep else []) @ joinWith sep (map (\<lambda>(j, c). f j c) (enumerate k cs))"
proof (induction cs arbitrary: k)
  case Nil
  show ?case by simp
next
  case (Cons c cs)
  show ?case using Cons[of "Suc k"] by (cases cs) (auto simp: joinWith_Cons)
qed

lemma ExtractAllClaimsTextFormatted_Some:
  "ExtractAllClaimsTextFormatted (Some cl) = joinWith ''\<newline>\<newline>'' (scannedBlocks (ClaimList cl))"
proof -
  have "formattedLoop (ClaimList cl) 0 [] = joinWith ''\<newline>\<newline>'' (scannedBlocks (ClaimList cl))"
    using formattedLoop_eq[of "ClaimList cl" 0 "[]"]
    by (simp add: concat_blocks scannedBlocks_def)
  then show ?thesis
    by (cases "ClaimList cl")
       (simp_all add: ExtractAllClaimsTextFormatted_def scannedBlocks_def)
qed

lemma scannedBlocks_nth:
  assumes "k < length cs"
  shows "scannedBlocks cs ! k = scannedBlock (Suc k) (cs ! k)"
  using assms by (simp add: scannedBlocks_def nth_enumerate_eq)

text \<open>A sign or a digit is not white space, so the scan starts at once.\<close>

lemma startsWith_Cons: "startsWith (e # es) (c # cs) = (e = c \<and> startsWith es cs)"
  by (auto simp add: startsWith_def)

lemma SkipSpace_number_start:
  assumes "c \<in> set (''+-'' @ digitClass)"
  shows "SkipSpace (c # cs) = Inr (c # cs)"
proof -
  have ne: "\<forall>e \<in> set spaceRunes. e = [] \<or> hd e \<noteq> c"
    using assms unfolding spaceRunes_def digitClass_def by auto
  have "\<not> (e \<noteq> [] \<and> startsWith e (c # cs))" if "e \<in> set spaceRunes" for e
    using ne that by (cases e) (auto simp add: startsWith_Cons)
  then have "find (\<lambda>e. e \<noteq> [] \<and> startsWith e (c # cs)) spaceRunes = None"
    unfolding find_None_iff by blast
  moreover have "c \<noteq> CHR 0x0A"
    using assms by (auto simp add: digitClass_def)
  ultimately show ?thesis by simp
qed

text \<open>On an attribute that is an integer the scan returns that integer.\<close>

lemma integerLiteral_scanned:
  assumes "integerLiteral s = Some n"
  shows "Sscanf_d s = Inr n"
proof (cases s)
  case Nil
  with assms show ?thesis by (simp add: integerLiteral_def)
next
  case (Cons c cs)
  define ds where "ds = (if c = CHR ''+'' \<or> c = CHR ''-'' then cs else c # cs)"
  define m where "m = (if c = CHR ''-'' then - decimalValue ds else decimalValue ds)"
  from assms Cons have lit:
    "ds \<noteq> []" "list_all (\<lambda>d. d \<in> set digitClass) ds"
    "- (2 ^ 63) \<le> m" "m \<le> 2 ^ 63 - 1" "n = m"
    unfolding integerLiteral_def Let_def ds_def m_def
    by (auto split: if_splits)
  have tok: "takeWhile (\<lambda>d. d \<in> set digitClass) ds = ds"
    using lit(2) by (simp add: takeWhile_eq_all_conv list_all_iff)
  have "c \<in> set (''+-'' @ digitClass)"
    using lit(1,2) by (auto simp add: ds_def split: if_splits)
  then have skip: "SkipSpace (c # cs) = Inr (c # cs)"
    by (rule SkipSpace_number_start)
  have "Sscanf_d (c # cs) = Inr m"
    unfolding Sscanf_d_def skip using lit(1,3,4)
    by (simp add: Let_def ds_def [symmetric] tok m_def [symmetric])
  with Cons lit(5) show ?thesis by simp
qed

lemma scanned_declared:
  assumes "integerLiteral (Claim.Num c) \<noteq> None \<or> isl (Sscanf_d (Claim.Num c))"
  shows "scannedNumber k c = declaredNumber k c"
proof (cases "integerLiteral (Claim.Num c)")
  case None
  with assms have "isl (Sscanf_d (Claim.Num c))" by simp
  with None show ?thesis
    by (cases "Sscanf_d (Claim.Num c)") (simp_all add: scannedNumber_def declaredNumber_def)
next
  case (Some n)
  then have "Sscanf_d (Claim.Num c) = Inr n" by (rule integerLiteral_scanned)
  with Some show ?thesis by (simp add: scannedNumber_def declaredNumber_def)
qed

lemma scannedBlocks_declared:
  assumes "\<forall>c \<in> set cs. integerLiteral (Claim.Num c) \<noteq> None \<or> isl (Sscanf_d (Claim.Num c))"
  shows "joinWith ''\<newline>\<newline>'' (scannedBlocks cs) = all_claims_text_formatted cs"
proof -
  have "map (\<lambda>(k, c). scannedBlock (Suc k) c) (enumerate 0 cs) =
        map (\<lambda>(k, c). ''CLAIM '' @ formatInt (declaredNumber (Suc k) c) @ '':\<newline>''
                         @ claim_text c) (enumerate 0 cs)"
  proof (rule map_cong [OF refl])
    fix p assume "p \<in> set (enumerate 0 cs)"
    then have "snd p \<in> set cs"
      using nth_mem [of "fst p" cs] by (auto simp add: in_set_enumerate_eq)
    with assms have "scannedNumber (Suc (fst p)) (snd p) = declaredNumber (Suc (fst p)) (snd p)"
      by (intro scanned_declared) blast
    then show "(case p of (k, c) \<Rightarrow> scannedBlock (Suc k) c) =
        (case p of (k, c) \<Rightarrow> ''CLAIM '' @ formatInt (declaredNumber (Suc k) c) @ '':\<newline>''
                         @ claim_text c)"
      by (simp add: scannedBlock_def split_beta)
  qed
  then show ?thesis
    by (simp only: scannedBlocks_def all_claims_text_formatted_def)
qed
text \<open>
  Claim C8 as the specification words it does not hold. The number of a claim is "parsed
  from the claim's declared number attribute if that attribute parses as an integer", and
  the position otherwise; the code scans a number from the start of the attribute and
  ignores what follows it. With the attributes \<open>12_3\<close> and \<open>1.5\<close>, neither of them an
  integer, the claims are numbered 12 and 1 and not by their positions 1 and 2.
\<close>

theorem ExtractAllClaimsTextFormatted_prefix_scan_counterexample:
  "ExtractAllClaimsTextFormatted (Some \<lparr>Claims.ID = [], Lang = [], ClaimList =
      [\<lparr>Claim.ID = [], Num = ''12_3'', ClaimText = [ClaimText.ClaimText [] ''A'' [] [] [] [] []]\<rparr>,
       \<lparr>Claim.ID = [], Num = ''1.5'', ClaimText = [ClaimText.ClaimText [] ''B'' [] [] [] [] []]\<rparr>]\<rparr>)
     = ''CLAIM 12:\<newline>A\<newline>\<newline>CLAIM 1:\<newline>B'' \<and>
   all_claims_text_formatted
      [\<lparr>Claim.ID = [], Num = ''12_3'', ClaimText = [ClaimText.ClaimText [] ''A'' [] [] [] [] []]\<rparr>,
       \<lparr>Claim.ID = [], Num = ''1.5'', ClaimText = [ClaimText.ClaimText [] ''B'' [] [] [] [] []]\<rparr>]
     = ''CLAIM 1:\<newline>A\<newline>\<newline>CLAIM 2:\<newline>B'' \<and>
   integerLiteral ''12_3'' = None \<and> integerLiteral ''1.5'' = None \<and>
   Sscanf_d ''12_3'' = Inr 12 \<and> Sscanf_d ''1.5'' = Inr 1"
  by code_simp

text \<open>
  Claim C8, as amended. For a list of N claims the formatted text is N blocks joined by a
  blank line. The block of the claim at index \<open>k\<close> (counted from 0) is "CLAIM n:", a line
  feed and the extracted text of that claim, where \<open>n\<close> is the integer scanned from the
  start of the claim's \<open>num\<close> attribute when that scan succeeds, and the position \<open>k + 1\<close>
  otherwise. An attribute that is an integer scans as that integer. So when every
  attribute is an integer or fails the scan, the result is the text the specification
  describes.
\<close>

theorem ExtractAllClaimsTextFormatted_scanned_blocks:
  "ExtractAllClaimsTextFormatted (Some cl) = joinWith ''\<newline>\<newline>'' (scannedBlocks (ClaimList cl)) \<and>
   length (scannedBlocks (ClaimList cl)) = length (ClaimList cl) \<and>
   (\<forall>k < length (ClaimList cl).
      scannedBlocks (ClaimList cl) ! k =
        ''CLAIM '' @
        formatInt (case Sscanf_d (Claim.Num (ClaimList cl ! k)) of
                     Inl err \<Rightarrow> int k + 1 | Inr n \<Rightarrow> n) @
        '':\<newline>'' @ ExtractClaimText (Some (ClaimList cl ! k))) \<and>
   (\<forall>k < length (ClaimList cl). \<forall>n.
      integerLiteral (Claim.Num (ClaimList cl ! k)) = Some n \<longrightarrow>
      Sscanf_d (Claim.Num (ClaimList cl ! k)) = Inr n) \<and>
   ((\<forall>c \<in> set (ClaimList cl).
       integerLiteral (Claim.Num c) \<noteq> None \<or> isl (Sscanf_d (Claim.Num c))) \<longrightarrow>
    ExtractAllClaimsTextFormatted (Some cl) = all_claims_text_formatted (ClaimList cl))"
proof -
  have block: "scannedBlock (Suc k) c =
      ''CLAIM '' @ formatInt (case Sscanf_d (Claim.Num c) of Inl err \<Rightarrow> int k + 1 | Inr n \<Rightarrow> n) @
        '':\<newline>'' @ ExtractClaimText (Some c)" for k c
    by (simp add: scannedBlock_def scannedNumber_def ExtractClaimText_Some add.commute
          split: sum.splits)
  have 1: "ExtractAllClaimsTextFormatted (Some cl) =
      joinWith ''\<newline>\<newline>'' (scannedBlocks (ClaimList cl))"
    by (rule ExtractAllClaimsTextFormatted_Some)
  have 2: "length (scannedBlocks (ClaimList cl)) = length (ClaimList cl)"
    by (simp add: scannedBlocks_def)
  have 3: "\<forall>k < length (ClaimList cl).
      scannedBlocks (ClaimList cl) ! k =
        ''CLAIM '' @
        formatInt (case Sscanf_d (Claim.Num (ClaimList cl ! k)) of
                     Inl err \<Rightarrow> int k + 1 | Inr n \<Rightarrow> n) @
        '':\<newline>'' @ ExtractClaimText (Some (ClaimList cl ! k))"
    by (simp add: scannedBlocks_nth block)
  have 4: "\<forall>k < length (ClaimList cl). \<forall>n.
      integerLiteral (Claim.Num (ClaimList cl ! k)) = Some n \<longrightarrow>
      Sscanf_d (Claim.Num (ClaimList cl ! k)) = Inr n"
    by (simp add: integerLiteral_scanned)
  have 5: "(\<forall>c \<in> set (ClaimList cl).
       integerLiteral (Claim.Num c) \<noteq> None \<or> isl (Sscanf_d (Claim.Num c))) \<longrightarrow>
    ExtractAllClaimsTextFormatted (Some cl) = all_claims_text_formatted (ClaimList cl)"
    unfolding 1 by (rule impI) (rule scannedBlocks_declared)
  from 1 2 3 4 5 show ?thesis by (intro conjI)
qed

theorem ExtractAllClaimsTextFormatted_scanned_blocks_witness:
  "ExtractAllClaimsTextFormatted (Some \<lparr>Claims.ID = [], Lang = [], ClaimList =
      [\<lparr>Claim.ID = [], Num = ''00007'', ClaimText = [ClaimText.ClaimText [] ''A'' [] [] [] [] []]\<rparr>,
       \<lparr>Claim.ID = [], Num = ''x'', ClaimText = [ClaimText.ClaimText [] ''B'' [] [] [] [] []]\<rparr>]\<rparr>)
     = ''CLAIM 7:\<newline>A\<newline>\<newline>CLAIM 2:\<newline>B'' \<and>
   all_claims_text_formatted
      [\<lparr>Claim.ID = [], Num = ''00007'', ClaimText = [ClaimText.ClaimText [] ''A'' [] [] [] [] []]\<rparr>,
       \<lparr>Claim.ID = [], Num = ''x'', ClaimText = [ClaimText.ClaimText [] ''B'' [] [] [] [] []]\<rparr>]
     = ''CLAIM 7:\<newline>A\<newline>\<newline>CLAIM 2:\<newline>B'' \<and>
   integerLiteral ''00007'' = Some 7 \<and> Sscanf_d ''00007'' = Inr 7 \<and>
   integerLiteral ''x'' = None \<and> Sscanf_d ''x'' = Inl ExpectedInteger"
proof -
  let ?cs = "[\<lparr>Claim.ID = [], Num = ''00007'', ClaimText = [ClaimText.ClaimText [] ''A'' [] [] [] [] []]\<rparr>,
       \<lparr>Claim.ID = [], Num = ''x'', ClaimText = [ClaimText.ClaimText [] ''B'' [] [] [] [] []]\<rparr>]"
  let ?cl = "\<lparr>Claims.ID = [], Lang = [], ClaimList = ?cs\<rparr>"
  have h: "\<forall>c \<in> set (ClaimList ?cl).
      integerLiteral (Claim.Num c) \<noteq> None \<or> isl (Sscanf_d (Claim.Num c))"
    by code_simp
  have b: "all_claims_text_formatted ?cs = ''CLAIM 7:\<newline>A\<newline>\<newline>CLAIM 2:\<newline>B''"
    by code_simp
  have s: "integerLiteral ''00007'' = Some 7 \<and> Sscanf_d ''00007'' = Inr 7 \<and>
      integerLiteral ''x'' = None \<and> Sscanf_d ''x'' = Inl ExpectedInteger"
    by code_simp
  note t = ExtractAllClaimsTextFormatted_scanned_blocks [of ?cl]
  from t [THEN conjunct2, THEN conjunct2, THEN conjunct2, THEN conjunct2, THEN mp, OF h]
  have "ExtractAllClaimsTextFormatted (Some ?cl) = all_claims_text_formatted ?cs"
    by simp
  with b s show ?thesis by (simp only: simp_thms)
qed

section \<open>The text of the description\<close>

lemma headingsLoop_eq:
  "fst (headingsLoop hs (b, l)) = emit b (map (\<lambda>h. TrimSpace (Heading.Text h)) hs)"
  by (induction hs arbitrary: b l) (simp_all add: emit_def)

lemma paragraphsLoop_eq:
  "fst (paragraphsLoop ps (b, l)) = emit b (map (\<lambda>p. TrimSpace (Paragraph.Text p)) ps)"
  by (induction ps arbitrary: b l) (simp_all add: emit_def extractParagraphText_def)

lemma emit_append: "emit b (fs @ gs) = emit (emit b fs) gs"
  by (simp add: emit_def)

lemma emit_nonempty: "b \<noteq> [] \<Longrightarrow> emit b fs = joinWith ''\<newline>\<newline>'' (b # fs)"
proof (induction fs arbitrary: b)
  case Nil
  show ?case by (simp add: emit_def)
next
  case (Cons f fs)
  have "emit b (f # fs) = emit (b @ ''\<newline>\<newline>'' @ f) fs"
    using Cons.prems by (simp add: emit_def)
  also have "\<dots> = joinWith ''\<newline>\<newline>'' ((b @ ''\<newline>\<newline>'' @ f) # fs)"
    by (rule Cons.IH) simp
  finally show ?case by (simp add: joinWith_Cons)
qed

lemma emit_Nil: "emit [] fs = joinWith ''\<newline>\<newline>'' (dropWhile (\<lambda>f. f = []) fs)"
proof (induction fs)
  case Nil
  show ?case by (simp add: emit_def)
next
  case (Cons f fs)
  show ?case
  proof (cases "f = []")
    case True
    with Cons show ?thesis by (simp add: emit_def)
  next
    case False
    have "emit [] (f # fs) = emit f fs" by (simp add: emit_def)
    with False show ?thesis by (simp add: emit_nonempty)
  qed
qed

lemma TrimSpace_newline: "TrimSpace (CHR ''\<newline>'' # s) = TrimSpace s"
  by (simp add: TrimSpace_def spaceRunes_def startsWith_def)

lemma TrimSpace_dropWhile:
  "TrimSpace (joinWith ''\<newline>\<newline>'' (dropWhile (\<lambda>f. f = []) fs)) =
   TrimSpace (joinWith ''\<newline>\<newline>'' fs)"
proof (induction fs)
  case Nil
  show ?case by simp
next
  case (Cons f fs)
  show ?case
  proof (cases "f = []")
    case False
    then show ?thesis by simp
  next
    case True
    show ?thesis
    proof (cases "fs = []")
      case True
      with \<open>f = []\<close> show ?thesis by simp
    next
      case False
      with \<open>f = []\<close> Cons show ?thesis
        by (simp add: joinWith_Cons TrimSpace_newline)
    qed
  qed
qed

lemma description_text_join:
  "description_text d = joinWith ''\<newline>\<newline>'' (headingBlock d @ paragraphBlock d)"
  by (simp add: description_text_def joinWith_append)

lemma ExtractDescriptionText_Some:
  "ExtractDescriptionText (Some d) = TrimSpace (description_text d)"
proof -
  have "fst (paragraphsLoop (Description.Paragraphs d) (headingsLoop (Headings d) ([], False)))
      = emit [] (headingBlock d @ paragraphBlock d)"
    by (cases "headingsLoop (Headings d) ([], False)")
       (metis emit_append headingsLoop_eq paragraphsLoop_eq fst_conv headingBlock_def paragraphBlock_def)
  then show ?thesis
    by (simp add: ExtractDescriptionText_def Let_def emit_Nil TrimSpace_dropWhile
          description_text_join)
qed

text \<open>
  Claim C7, as amended. Without a description the text is empty. With one, the text is
  the trimmed headings, then the trimmed paragraphs, every two neighbours separated by a
  blank line and so the two blocks as well (\<open>description_text\<close>), and this text is trimmed
  as a whole at the end. The order in which headings and paragraphs alternate in the
  document plays no part, since the result is a function of the two sequences. When no
  heading and no paragraph is blank, the final trimming changes nothing and the result is
  \<open>description_text\<close> exactly.
\<close>

theorem ExtractDescriptionText_headings_then_paragraphs:
  "ExtractDescriptionText None = [] \<and>
   ExtractDescriptionText (Some d) = TrimSpace (description_text d) \<and>
   (list_all (\<lambda>f. f \<noteq> []) (headingBlock d @ paragraphBlock d) \<longrightarrow>
      ExtractDescriptionText (Some d) = description_text d)"
proof -
  have "trimmed (description_text d)"
    if a: "list_all (\<lambda>f. f \<noteq> []) (headingBlock d @ paragraphBlock d)"
  proof -
    have s: "''\<newline>\<newline>'' = CHR ''\<newline>'' # ''\<newline>''"
      "rev ''\<newline>\<newline>'' = CHR ''\<newline>'' # ''\<newline>''" by simp_all
    have "\<forall>f\<in>set (headingBlock d @ paragraphBlock d). f \<noteq> [] \<and> trimmed f"
      using a by (auto simp: list_all_iff headingBlock_def paragraphBlock_def TrimSpace_trimmed)
    from joinWith_trimmed[OF this s safeSep_newline safeSep_newline]
    show ?thesis by (simp only: description_text_join)
  qed
  then show ?thesis
    by (simp add: ExtractDescriptionText_Some TrimSpace_id) (simp add: ExtractDescriptionText_def)
qed

theorem ExtractDescriptionText_headings_then_paragraphs_witness:
  "list_all (\<lambda>f. f \<noteq> [])
     (headingBlock \<lparr>Description.ID = [], Lang = [],
        Headings = [\<lparr>Heading.ID = [], Level = [], Text = ''H1 ''\<rparr>,
                    \<lparr>Heading.ID = [], Level = [], Text = ''H2''\<rparr>],
        Paragraphs = [\<lparr>Paragraph.ID = [], Num = [], Text = '' p'', Sub = [], Sup = [],
                       I = [], B = []\<rparr>]\<rparr>
      @ paragraphBlock \<lparr>Description.ID = [], Lang = [],
        Headings = [\<lparr>Heading.ID = [], Level = [], Text = ''H1 ''\<rparr>,
                    \<lparr>Heading.ID = [], Level = [], Text = ''H2''\<rparr>],
        Paragraphs = [\<lparr>Paragraph.ID = [], Num = [], Text = '' p'', Sub = [], Sup = [],
                       I = [], B = []\<rparr>]\<rparr>) \<and>
   ExtractDescriptionText (Some \<lparr>Description.ID = [], Lang = [],
        Headings = [\<lparr>Heading.ID = [], Level = [], Text = ''H1 ''\<rparr>,
                    \<lparr>Heading.ID = [], Level = [], Text = ''H2''\<rparr>],
        Paragraphs = [\<lparr>Paragraph.ID = [], Num = [], Text = '' p'', Sub = [], Sup = [],
                       I = [], B = []\<rparr>]\<rparr>)
     = ''H1\<newline>\<newline>H2\<newline>\<newline>p''"
proof -
  let ?d = "\<lparr>Description.ID = [], Lang = [],
        Headings = [\<lparr>Heading.ID = [], Level = [], Text = ''H1 ''\<rparr>,
                    \<lparr>Heading.ID = [], Level = [], Text = ''H2''\<rparr>],
        Paragraphs = [\<lparr>Paragraph.ID = [], Num = [], Text = '' p'', Sub = [], Sup = [],
                       I = [], B = []\<rparr>]\<rparr>"
  have h: "list_all (\<lambda>f. f \<noteq> []) (headingBlock ?d @ paragraphBlock ?d)" by code_simp
  have v: "description_text ?d = ''H1\<newline>\<newline>H2\<newline>\<newline>p''" by code_simp
  from ExtractDescriptionText_headings_then_paragraphs[of ?d] h
  have "ExtractDescriptionText (Some ?d) = description_text ?d" by blast
  with h v show ?thesis by (simp only:)
qed

text \<open>
  Claim C7 as it was stated leaves the final trimming out, and fails where it shows: with
  the heading "A" and the paragraphs "P" and a blank one (a paragraph whose text sits in a
  formatting element has no character data of its own), the paragraph block joined by
  blank lines ends in a blank line, and the extracted text does not.
\<close>

theorem ExtractDescriptionText_blank_paragraph_counterexample:
  "ExtractDescriptionText (Some \<lparr>Description.ID = [], Lang = [],
        Headings = [\<lparr>Heading.ID = [], Level = [], Text = ''A''\<rparr>],
        Paragraphs = [\<lparr>Paragraph.ID = [], Num = [], Text = ''P'', Sub = [], Sup = [],
                       I = [], B = []\<rparr>,
                      \<lparr>Paragraph.ID = [], Num = [], Text = [], Sub = [], Sup = [],
                       I = [\<lparr>Italic.Text = ''Q''\<rparr>], B = []\<rparr>]\<rparr>)
     = ''A\<newline>\<newline>P'' \<and>
   description_text \<lparr>Description.ID = [], Lang = [],
        Headings = [\<lparr>Heading.ID = [], Level = [], Text = ''A''\<rparr>],
        Paragraphs = [\<lparr>Paragraph.ID = [], Num = [], Text = ''P'', Sub = [], Sup = [],
                       I = [], B = []\<rparr>,
                      \<lparr>Paragraph.ID = [], Num = [], Text = [], Sub = [], Sup = [],
                       I = [\<lparr>Italic.Text = ''Q''\<rparr>], B = []\<rparr>]\<rparr>
     = ''A\<newline>\<newline>P\<newline>\<newline>'' \<and>
   ExtractDescriptionText (Some \<lparr>Description.ID = [], Lang = [],
        Headings = [\<lparr>Heading.ID = [], Level = [], Text = ''A''\<rparr>],
        Paragraphs = [\<lparr>Paragraph.ID = [], Num = [], Text = ''P'', Sub = [], Sup = [],
                       I = [], B = []\<rparr>,
                      \<lparr>Paragraph.ID = [], Num = [], Text = [], Sub = [], Sup = [],
                       I = [\<lparr>Italic.Text = ''Q''\<rparr>], B = []\<rparr>]\<rparr>)
     \<noteq> description_text \<lparr>Description.ID = [], Lang = [],
        Headings = [\<lparr>Heading.ID = [], Level = [], Text = ''A''\<rparr>],
        Paragraphs = [\<lparr>Paragraph.ID = [], Num = [], Text = ''P'', Sub = [], Sup = [],
                       I = [], B = []\<rparr>,
                      \<lparr>Paragraph.ID = [], Num = [], Text = [], Sub = [], Sup = [],
                       I = [\<lparr>Italic.Text = ''Q''\<rparr>], B = []\<rparr>]\<rparr>"
  by code_simp

section \<open>The resolver\<close>

lemma resolveGrant_eq:
  "resolveGrantToApplicationNumber S g w =
     (case S (''applicationMetaData.patentNumber:'' @ g) 0 1 w of
        (Inl err, w') \<Rightarrow> (Inl (GrantSearchFailed g err), w')
      | (Inr None, w') \<Rightarrow> (Inl NilDereference, w')
      | (Inr (Some result), w') \<Rightarrow>
          (firstApplicationNumber (GrantNotFound g) (GrantApplicationNumberMissing g) result, w'))"
  by (simp add: resolveGrantToApplicationNumber_def firstApplicationNumber_def Let_def
        split: prod.splits sum.splits option.splits list.splits)

lemma resolvePublication_eq:
  "resolvePublicationToApplicationNumber S p w =
     (case S (''applicationMetaData.earliestPublicationNumber:'' @
               (if length p = 11 \<and> \<not> startsWith ''US'' p then ''US'' @ p @ ''A1'' else p)) 0 1 w of
        (Inl err, w') \<Rightarrow> (Inl (PublicationSearchFailed p err), w')
      | (Inr None, w') \<Rightarrow> (Inl NilDereference, w')
      | (Inr (Some result), w') \<Rightarrow>
          (firstApplicationNumber (PublicationNotFound p)
             (PublicationApplicationNumberMissing p) result, w'))"
  by (simp add: resolvePublicationToApplicationNumber_def firstApplicationNumber_def Let_def
        split: prod.splits sum.splits option.splits list.splits)

lemma digits_no_US:
  assumes "digits n s"
  shows "\<not> startsWith ''US'' s"
proof
  assume "startsWith ''US'' s"
  then have "take (length ''US'') s = ''US''" by (simp only: startsWith_def)
  moreover have "CHR ''U'' \<in> set ''US''" by simp
  ultimately have "CHR ''U'' \<in> set (take (length ''US'') s)" by (simp only:)
  then have "CHR ''U'' \<in> set s" by (rule in_set_takeD)
  with assms show False by (auto simp: digits_def digitClass_def)
qed

text \<open>
  Claim C5. For an input that normalizes to a grant, the resolution makes one call of the
  search, with the query "applicationMetaData.patentNumber:" followed by \<open>Normalized\<close>,
  offset 0 and limit 1, and the state of the world afterwards is the state after that
  call. When the search returns a response: no record gives the not-found error, a first
  record without application number gives the malformed-response error, and otherwise the
  result is the application number of the first record. (An error of the search is passed
  on wrapped; a nil response is a nil dereference.)
\<close>

theorem ResolvePatentNumber_grant:
  assumes "NormalizePatentNumber input = Inr pn" and "Type pn = PatentNumberTypeGrant"
  shows "ResolvePatentNumber SearchPatents input w =
     (case SearchPatents (''applicationMetaData.patentNumber:'' @ Normalized pn) 0 1 w of
        (Inl err, w') \<Rightarrow> (Inl (GrantSearchFailed (Normalized pn) err), w')
      | (Inr None, w') \<Rightarrow> (Inl NilDereference, w')
      | (Inr (Some result), w') \<Rightarrow>
          (case PatentFileWrapperDataBag result of
             None \<Rightarrow> (Inl (GrantNotFound (Normalized pn)), w')
           | Some [] \<Rightarrow> (Inl (GrantNotFound (Normalized pn)), w')
           | Some (patent # rest) \<Rightarrow>
               (case ApplicationNumberText patent of
                  None \<Rightarrow> (Inl (GrantApplicationNumberMissing (Normalized pn)), w')
                | Some applicationNumber \<Rightarrow> (Inr applicationNumber, w'))))"
  using assms
  by (simp add: ResolvePatentNumber_def resolveGrant_eq firstApplicationNumber_def
        split: prod.splits sum.splits option.splits list.splits)

theorem ResolvePatentNumber_grant_witness:
  "ResolvePatentNumber
     (recordingSearch \<lparr>PatentFileWrapperDataBag =
        Some [\<lparr>ApplicationNumberText = Some ''17248024''\<rparr>]\<rparr>) ''9,123,456'' []
   = (Inr ''17248024'', [(''applicationMetaData.patentNumber:9123456'', 0, 1)])"
proof -
  let ?pn = "\<lparr>Original = ''9,123,456'', Normalized = ''9123456'', ApplicationNo = [],
          Type = PatentNumberTypeGrant, PatentNumber.Country = ''US''\<rparr>"
  have h: "NormalizePatentNumber ''9,123,456'' = Inr ?pn"
    by code_simp
  have t: "Type ?pn = PatentNumberTypeGrant" by simp
  note r = ResolvePatentNumber_grant[OF h t]
  show ?thesis
    unfolding r by (simp add: recordingSearch_def)
qed

text \<open>
  Claim C6. The publication resolver turns a value of 11 bytes that does not begin with
  "US" into "US" + value + "A1" and leaves any other value as it is; it queries the field
  "applicationMetaData.earliestPublicationNumber" with the result, offset 0 and limit 1,
  once, and reads the response as the grant resolver does. For an input that normalizes to
  a publication, \<open>Normalized\<close> is 11 digits, so the query is made with
  "US" + \<open>Normalized\<close> + "A1".
\<close>

theorem ResolvePatentNumber_publication:
  assumes "NormalizePatentNumber input = Inr pn" and "Type pn = PatentNumberTypePublication"
  shows "ResolvePatentNumber SearchPatents input w =
     (case SearchPatents (''applicationMetaData.earliestPublicationNumber:'' @
                           ''US'' @ Normalized pn @ ''A1'') 0 1 w of
        (Inl err, w') \<Rightarrow> (Inl (PublicationSearchFailed (Normalized pn) err), w')
      | (Inr None, w') \<Rightarrow> (Inl NilDereference, w')
      | (Inr (Some result), w') \<Rightarrow>
          (firstApplicationNumber (PublicationNotFound (Normalized pn))
             (PublicationApplicationNumberMissing (Normalized pn)) result, w'))
   \<and> (\<forall>p. resolvePublicationToApplicationNumber SearchPatents p w =
     (case SearchPatents (''applicationMetaData.earliestPublicationNumber:'' @
               (if length p = 11 \<and> \<not> startsWith ''US'' p then ''US'' @ p @ ''A1'' else p)) 0 1 w of
        (Inl err, w') \<Rightarrow> (Inl (PublicationSearchFailed p err), w')
      | (Inr None, w') \<Rightarrow> (Inl NilDereference, w')
      | (Inr (Some result), w') \<Rightarrow>
          (firstApplicationNumber (PublicationNotFound p)
             (PublicationApplicationNumberMissing p) result, w')))"
proof -
  from Normalize_cases[OF assms(1)] assms(2) have d: "digits 11 (Normalized pn)" by auto
  then have "length (Normalized pn) = 11" by (simp add: digits_def)
  moreover from digits_no_US[OF d] have "\<not> startsWith ''US'' (Normalized pn)" .
  ultimately show ?thesis
    using assms by (simp add: ResolvePatentNumber_def resolvePublication_eq)
qed

theorem ResolvePatentNumber_publication_witness:
  "ResolvePatentNumber
     (recordingSearch \<lparr>PatentFileWrapperDataBag =
        Some [\<lparr>ApplicationNumberText = Some ''17248024''\<rparr>]\<rparr>) ''US20250087686A1'' []
   = (Inr ''17248024'',
      [(''applicationMetaData.earliestPublicationNumber:US20250087686A1'', 0, 1)])"
proof -
  let ?pn = "\<lparr>Original = ''US20250087686A1'', Normalized = ''20250087686'', ApplicationNo = [],
          Type = PatentNumberTypePublication, PatentNumber.Country = ''US''\<rparr>"
  have h: "NormalizePatentNumber ''US20250087686A1'' = Inr ?pn"
    by code_simp
  have t: "Type ?pn = PatentNumberTypePublication" by simp
  note r = ResolvePatentNumber_publication[OF h t, THEN conjunct1]
  show ?thesis
    unfolding r by (simp add: recordingSearch_def firstApplicationNumber_def)
qed

section \<open>The parser\<close>

lemma unmarshalGrant_name:
  "unmarshalGrant fill data = Inr g \<Longrightarrow> Local (PatentGrant.XMLName g) = ''us-patent-grant''"
  by (cases data)
     (auto simp: unmarshalGrant_def Unmarshal_def split: if_splits sum.splits)

lemma unmarshalApplication_name:
  "unmarshalApplication fill data = Inr a \<Longrightarrow>
     Local (PatentApplication.XMLName a) = ''us-patent-application''"
  by (cases data)
     (auto simp: unmarshalApplication_def Unmarshal_def split: if_splits sum.splits)

text \<open>
  The mismatch is found by the decoder: the root-name check of \<open>ParseXMLWithType\<close> itself
  never fails, whatever the input and the expected type.
\<close>

lemma root_check_never_fails:
  "parse fillGrant fillApplication data expectedType \<noteq> Inl (ExpectedRootElement expected actual)"
proof (cases expectedType)
  case DocumentTypeUnknown
  then show ?thesis
    by (simp add: parse_def ParseXMLWithType_def Let_def split: sum.splits)
next
  case DocumentTypeGrant
  then show ?thesis
    by (auto simp: parse_def ParseXMLWithType_def Let_def dest: unmarshalGrant_name
          split: sum.splits)
next
  case DocumentTypeApplication
  then show ?thesis
    by (auto simp: parse_def ParseXMLWithType_def Let_def dest: unmarshalApplication_name
          split: sum.splits)
qed




end
